theory Spec2Isabelle
  imports Main "HOL-Library.Word" "HOL-Library.Sublist"
begin

section \<open>Strings and byte buffers\<close>

text \<open>
  A JavaScript string is a sequence of 16-bit code units, a \<^verbatim>\<open>Uint8Array\<close> a sequence of
  bytes. \<open>str\<close> writes an ASCII literal as a JavaScript string.
\<close>

type_synonym byte = "8 word"
type_synonym code_unit = "16 word"
type_synonym jsstring = "code_unit list"

definition str :: "string \<Rightarrow> jsstring" where
  "str s = map of_char s"

definition startsWith :: "jsstring \<Rightarrow> jsstring \<Rightarrow> bool" where
  "startsWith s p = prefix p s"

definition endsWith :: "jsstring \<Rightarrow> jsstring \<Rightarrow> bool" where
  "endsWith s p = suffix p s"

section \<open>Binary detection\<close>

text \<open>
  \<^verbatim>\<open>for (let i = 0; i < limit; i += 1) { if (buffer[i] === 0) return true; } return false;\<close>
  The index stays below \<open>limit \<le> length buffer\<close>, so every read is in range.
\<close>

function isBinaryBuffer_loop :: "byte list \<Rightarrow> nat \<Rightarrow> nat \<Rightarrow> bool" where
  "isBinaryBuffer_loop buffer limit i =
     (if i < limit
      then (if buffer ! i = 0 then True else isBinaryBuffer_loop buffer limit (i + 1))
      else False)"
  by pat_completeness auto
termination
  by (relation "measure (\<lambda>(buffer, limit, i). limit - i)") auto

declare isBinaryBuffer_loop.simps [simp del]

definition isBinaryBuffer :: "byte list \<Rightarrow> bool" where
  "isBinaryBuffer buffer =
     (let limit = min (length buffer) 8000 in isBinaryBuffer_loop buffer limit 0)"

section \<open>Path prefix test\<close>

definition isSubPath :: "jsstring \<Rightarrow> jsstring \<Rightarrow> bool" where
  "isSubPath relPath segment \<longleftrightarrow>
     relPath = segment \<or> startsWith relPath (segment @ str ''/'')
     \<or> startsWith relPath (segment @ str [CHR 0x5C])"

section \<open>Placeholder substitution\<close>

text \<open>
  Prompt answers are strings or booleans. The answers object is created by the literal
  \<^verbatim>\<open>{}\<close>, so a property read \<^verbatim>\<open>data[key]\<close> that finds no own property continues in
  \<^verbatim>\<open>Object.prototype\<close>: \<^verbatim>\<open>__proto__\<close> yields the prototype object itself and the names
  of the built-in methods yield function objects. Only a name found in neither place reads
  as \<^verbatim>\<open>undefined\<close>.
\<close>

datatype promptValue = VString jsstring | VBoolean bool

type_synonym PromptValues = "jsstring \<rightharpoonup> promptValue"

datatype jsvalue =
    Undefined
  | Primitive promptValue
  | ObjectPrototype
  | BuiltinFunction jsstring

definition objectPrototypeMethods :: "(jsstring \<times> jsstring) list" where
  "objectPrototypeMethods =
     [(str ''constructor'', str ''Object''),
      (str ''__defineGetter__'', str ''__defineGetter__''),
      (str ''__defineSetter__'', str ''__defineSetter__''),
      (str ''hasOwnProperty'', str ''hasOwnProperty''),
      (str ''__lookupGetter__'', str ''__lookupGetter__''),
      (str ''__lookupSetter__'', str ''__lookupSetter__''),
      (str ''isPrototypeOf'', str ''isPrototypeOf''),
      (str ''propertyIsEnumerable'', str ''propertyIsEnumerable''),
      (str ''toString'', str ''toString''),
      (str ''valueOf'', str ''valueOf''),
      (str ''toLocaleString'', str ''toLocaleString'')]"

definition getProperty :: "PromptValues \<Rightarrow> jsstring \<Rightarrow> jsvalue" where
  "getProperty data key =
     (case data key of
        Some v \<Rightarrow> Primitive v
      | None \<Rightarrow>
          if key = str ''__proto__'' then ObjectPrototype
          else (case map_of objectPrototypeMethods key of
                  Some fname \<Rightarrow> BuiltinFunction fname
                | None \<Rightarrow> Undefined))"

text \<open>
  \<^verbatim>\<open>String(value)\<close>. The source text of a built-in function is implementation-defined; the
  text below is the one the JavaScriptCore engine of the Bun runtime prints. The string form
  of \<^verbatim>\<open>Object.prototype\<close> is fixed by the language.
\<close>

fun String :: "jsvalue \<Rightarrow> jsstring" where
  "String Undefined = str ''undefined''"
| "String (Primitive (VString s)) = s"
| "String (Primitive (VBoolean b)) = (if b then str ''true'' else str ''false'')"
| "String ObjectPrototype = str ''[object Object]''"
| "String (BuiltinFunction fname) =
     str ''function '' @ fname @ str ''() {'' @ [0x0A] @ str ''    [native code]'' @ [0x0A] @ str ''}''"

text \<open>
  The character classes of the pattern \<^verbatim>\<open>/<%=\s*([a-zA-Z0-9_.-]+)\s*%>/g\<close>:
  \<^verbatim>\<open>\s\<close> is the white space and line terminator code units of ECMAScript.
\<close>

definition isSpace :: "code_unit \<Rightarrow> bool" where
  "isSpace c \<longleftrightarrow>
     c \<in> {0x09, 0x0A, 0x0B, 0x0C, 0x0D, 0x20, 0xA0, 0x1680, 0x2028, 0x2029, 0x202F,
          0x205F, 0x3000, 0xFEFF}
     \<or> (0x2000 \<le> c \<and> c \<le> 0x200A)"

definition isKeyChar :: "code_unit \<Rightarrow> bool" where
  "isKeyChar c \<longleftrightarrow>
     (0x61 \<le> c \<and> c \<le> 0x7A) \<or> (0x41 \<le> c \<and> c \<le> 0x5A) \<or> (0x30 \<le> c \<and> c \<le> 0x39)
     \<or> c = 0x5F \<or> c = 0x2E \<or> c = 0x2D"

text \<open>
  One attempt to match the pattern at the start of \<open>s\<close>; the result is the captured key
  and the text after the match. The three classes \<^verbatim>\<open>\s\<close>, key character and \<^verbatim>\<open>%\<close> are
  pairwise disjoint, so the greedy scan below finds the only possible match.
\<close>

definition matchPlaceholder :: "jsstring \<Rightarrow> (jsstring \<times> jsstring) option" where
  "matchPlaceholder s =
     (if startsWith s (str ''<%='') then
        (let s1 = dropWhile isSpace (drop 3 s);
             key = takeWhile isKeyChar s1;
             s2 = dropWhile isSpace (dropWhile isKeyChar s1)
         in if key \<noteq> [] \<and> startsWith s2 (str ''%>'') then Some (key, drop 2 s2) else None)
      else None)"

text \<open>
  \<^verbatim>\<open>content.replace(pattern, replacer)\<close> with the global flag: scan from the left, replace a
  match by the replacer's result (taken literally) and continue behind it; a code unit at
  which no match starts is copied.
\<close>

definition replacer :: "PromptValues \<Rightarrow> jsstring \<Rightarrow> jsstring" where
  "replacer data key =
     (let v = getProperty data key in if v = Undefined then [] else String v)"

function renderTemplate :: "jsstring \<Rightarrow> PromptValues \<Rightarrow> jsstring" where
  "renderTemplate [] data = []"
| "renderTemplate (c # cs) data =
     (case matchPlaceholder (c # cs) of
        Some (key, rest) \<Rightarrow> replacer data key @ renderTemplate rest data
      | None \<Rightarrow> c # renderTemplate cs data)"
  by pat_completeness auto
termination
proof (relation "measure (\<lambda>(s, data). length s)")
  fix c :: code_unit and cs key rest :: jsstring and data :: PromptValues and found
  assume "matchPlaceholder (c # cs) = Some found" and "(key, rest) = found"
  then have m: "matchPlaceholder (c # cs) = Some (key, rest)"
    by simp
  define s1 where "s1 = dropWhile isSpace (drop 3 (c # cs))"
  define s2 where "s2 = dropWhile isSpace (dropWhile isKeyChar s1)"
  from m have r: "rest = drop 2 s2"
    by (auto simp: matchPlaceholder_def Let_def s1_def s2_def split: if_splits)
  have "length s2 \<le> length (dropWhile isKeyChar s1)"
    unfolding s2_def by (rule length_dropWhile_le)
  also have "\<dots> \<le> length s1"
    by (rule length_dropWhile_le)
  also have "\<dots> \<le> length (drop 3 (c # cs))"
    unfolding s1_def by (rule length_dropWhile_le)
  finally have "length rest < length (c # cs)"
    using r by simp
  then show "((rest, data), c # cs, data) \<in> measure (\<lambda>(s, data). length s)"
    by simp
qed simp_all

section \<open>String and path functions of the runtime\<close>

text \<open>
  \<^verbatim>\<open>s.split("/")\<close>, \<^verbatim>\<open>parts.join(sep)\<close> and \<^verbatim>\<open>s.replace(pattern, replacement)\<close> with a
  string pattern, which replaces the first occurrence only. The source calls \<open>replace\<close>
  with the empty replacement, so the \<^verbatim>\<open>$\<close> patterns of a replacement string play no part.
\<close>

fun splitOn :: "'a \<Rightarrow> 'a list \<Rightarrow> 'a list list" where
  "splitOn sep [] = [[]]"
| "splitOn sep (c # cs) =
     (if c = sep then [] # splitOn sep cs
      else (case splitOn sep cs of [] \<Rightarrow> [[c]] | x # xs \<Rightarrow> (c # x) # xs))"

fun joinWith :: "'a list \<Rightarrow> 'a list list \<Rightarrow> 'a list" where
  "joinWith sep [] = []"
| "joinWith sep [x] = x"
| "joinWith sep (x # y # ys) = x @ sep @ joinWith sep (y # ys)"

fun replace :: "jsstring \<Rightarrow> jsstring \<Rightarrow> jsstring \<Rightarrow> jsstring" where
  "replace [] pat rep = (if pat = [] then rep else [])"
| "replace (c # cs) pat rep =
     (if startsWith (c # cs) pat then rep @ drop (length pat) (c # cs)
      else c # replace cs pat rep)"

text \<open>
  The POSIX functions of \<^verbatim>\<open>node:path\<close>. \<open>normalizeSegments\<close> is the segment walk of
  \<^verbatim>\<open>normalizeString\<close>: empty and \<^verbatim>\<open>.\<close> segments vanish, \<^verbatim>\<open>..\<close> removes the segment
  before it, or is kept when there is none and the path is relative.
\<close>

definition isAbsolute :: "jsstring \<Rightarrow> bool" where
  "isAbsolute p = startsWith p (str ''/'')"

fun normalizeSegments :: "bool \<Rightarrow> jsstring list \<Rightarrow> jsstring list \<Rightarrow> jsstring list" where
  "normalizeSegments allowAboveRoot res [] = res"
| "normalizeSegments allowAboveRoot res (seg # segs) =
     (if seg = [] \<or> seg = str ''.'' then normalizeSegments allowAboveRoot res segs
      else if seg = str ''..'' then
        (if res \<noteq> [] \<and> last res \<noteq> str ''..''
         then normalizeSegments allowAboveRoot (butlast res) segs
         else if allowAboveRoot then normalizeSegments allowAboveRoot (res @ [seg]) segs
         else normalizeSegments allowAboveRoot res segs)
      else normalizeSegments allowAboveRoot (res @ [seg]) segs)"

definition normalizeString :: "jsstring \<Rightarrow> bool \<Rightarrow> jsstring" where
  "normalizeString p allowAboveRoot =
     joinWith (str ''/'') (normalizeSegments allowAboveRoot [] (splitOn 0x2F p))"

definition normalize :: "jsstring \<Rightarrow> jsstring" where
  "normalize p =
     (if p = [] then str ''.''
      else
        (let isAbs = isAbsolute p;
             trailingSeparator = endsWith p (str ''/'');
             body = normalizeString p (\<not> isAbs)
         in if body = [] then
              (if isAbs then str ''/'' else if trailingSeparator then str ''./'' else str ''.'')
            else
              (let body' = (if trailingSeparator then body @ str ''/'' else body)
               in if isAbs then str ''/'' @ body' else body')))"

definition join :: "jsstring list \<Rightarrow> jsstring" where
  "join parts =
     (let joined = joinWith (str ''/'') (filter (\<lambda>part. part \<noteq> []) parts)
      in if joined = [] then str ''.'' else normalize joined)"

text \<open>
  \<^verbatim>\<open>resolve\<close> reads its arguments from the right until the path is absolute and falls
  back to the working directory of the process, which is passed in here.
\<close>

fun resolveFrom :: "jsstring list \<Rightarrow> jsstring \<Rightarrow> jsstring" where
  "resolveFrom [] resolvedPath = resolvedPath"
| "resolveFrom (p # ps) resolvedPath =
     (if p = [] then resolveFrom ps resolvedPath
      else if isAbsolute p then p @ str ''/'' @ resolvedPath
      else resolveFrom ps (p @ str ''/'' @ resolvedPath))"

definition resolve :: "jsstring \<Rightarrow> jsstring list \<Rightarrow> jsstring" where
  "resolve cwd paths =
     (let resolvedPath = resolveFrom (rev paths @ [cwd]) [];
          resolvedAbsolute = isAbsolute resolvedPath;
          body = normalizeString resolvedPath (\<not> resolvedAbsolute)
      in if resolvedAbsolute then str ''/'' @ body
         else if body \<noteq> [] then body else str ''.'')"

section \<open>Insertion-ordered maps and sets\<close>

text \<open>
  A JavaScript \<^verbatim>\<open>Map\<close> keeps its keys in the order of their first insertion: \<^verbatim>\<open>set\<close> on a
  present key replaces the value in place, on a new key it appends. \<^verbatim>\<open>delete\<close> removes the
  entry. A \<^verbatim>\<open>Set\<close> is kept as the list of its members.
\<close>

type_synonym ('k, 'v) jsmap = "('k \<times> 'v) list"

fun mapSet :: "'k \<Rightarrow> 'v \<Rightarrow> ('k, 'v) jsmap \<Rightarrow> ('k, 'v) jsmap" where
  "mapSet k v [] = [(k, v)]"
| "mapSet k v ((k', v') # m) = (if k' = k then (k, v) # m else (k', v') # mapSet k v m)"

definition mapDelete :: "'k \<Rightarrow> ('k, 'v) jsmap \<Rightarrow> ('k, 'v) jsmap" where
  "mapDelete k m = filter (\<lambda>(k', v'). k' \<noteq> k) m"

definition mapGet :: "('k, 'v) jsmap \<Rightarrow> 'k \<Rightarrow> 'v option" where
  "mapGet m k = map_of m k"

definition setAdd :: "'a \<Rightarrow> 'a list \<Rightarrow> 'a list" where
  "setAdd x xs = (if x \<in> set xs then xs else xs @ [x])"

section \<open>Configuration files\<close>

text \<open>
  Modelled from the spec: the type declarations \<^verbatim>\<open>PromptConfig\<close> and \<^verbatim>\<open>CreatorConfig\<close> of the
  module \<^verbatim>\<open>./types\<close>, which is not among the sources; the fields are those of the
  configuration schema (every field but a prompt's name, type and message is optional).
\<close>

datatype PromptType = TextPrompt | SelectPrompt | ConfirmPrompt

datatype PromptOption = OptionString jsstring | OptionRecord jsstring jsstring "jsstring option"

record PromptConfig =
  name :: jsstring
  type :: PromptType
  message :: jsstring
  initial :: "jsstring option"
  options :: "PromptOption list option"

record FileRules =
  "include" :: "jsstring list option"
  exclude :: "jsstring list option"
  copyFrom :: "jsstring list option"

record CreatorConfig =
  name :: "jsstring option"
  description :: "jsstring option"
  prompts :: "PromptConfig list option"
  files :: "FileRules option"

section \<open>The host: file system, glob scanner, decoder\<close>

text \<open>
  What the program reads from its environment, as functions of the path:
  \<^item> \<open>cwd\<close>: the working directory of the process;
  \<^item> \<open>existsSync\<close>; \<open>isDirectory\<close>: \<^verbatim>\<open>(await stat(p)).isDirectory()\<close> on an existing path;
  \<^item> \<open>lstat\<close>: the kind of the entry itself, \<open>None\<close> when the call fails;
  \<^item> \<open>readFile\<close>: the bytes of a file, \<open>None\<close> when the call fails;
  \<^item> \<open>readdir\<close>: the entries of a directory with their \<^verbatim>\<open>isDirectory()\<close> flag;
  \<^item> \<open>scan\<close>: the relative paths \<^verbatim>\<open>new Bun.Glob(pattern).scan({ cwd, dot: true })\<close> yields, in
    the order it yields them;
  \<^item> \<open>configFile\<close>: the outcome of reading a configuration file as text, \<^verbatim>\<open>JSON.parse\<close>
    and validation against the configuration schema;
  \<^item> \<open>utf8Decode\<close>: \<^verbatim>\<open>buffer.toString("utf8")\<close>.
\<close>

datatype FileKind = RegularFile | Directory | OtherKind

datatype ConfigFile = Unreadable | NotJson | NotConfig | Config CreatorConfig

record Host =
  cwd :: jsstring
  existsSync :: "jsstring \<Rightarrow> bool"
  isDirectory :: "jsstring \<Rightarrow> bool"
  lstat :: "jsstring \<Rightarrow> FileKind option"
  readFile :: "jsstring \<Rightarrow> byte list option"
  readdir :: "jsstring \<Rightarrow> (jsstring \<times> bool) list option"
  scan :: "jsstring \<Rightarrow> jsstring \<Rightarrow> jsstring list"
  configFile :: "jsstring \<Rightarrow> ConfigFile"
  utf8Decode :: "byte list \<Rightarrow> jsstring"

datatype error = FsError jsstring | JsonSyntaxError jsstring | InvalidConfig jsstring

text \<open>
  How a call ends: with a value, with \<^verbatim>\<open>process.exit(code)\<close>, with a thrown error, or
  waiting for an answer the user never gives.
\<close>

datatype 'a outcome = Returned 'a | Exited nat | Thrown error | Pending

text \<open>
  \<^verbatim>\<open>readFile\<close>, \<^verbatim>\<open>JSON.parse\<close> and \<^verbatim>\<open>safeParse(configSchema, parsed)\<close>, as the source repeats
  them wherever it loads a configuration file.
\<close>

definition loadConfig :: "Host \<Rightarrow> jsstring \<Rightarrow> error + CreatorConfig" where
  "loadConfig h configPath =
     (case configFile h configPath of
        Unreadable \<Rightarrow> Inl (FsError configPath)
      | NotJson \<Rightarrow> Inl (JsonSyntaxError configPath)
      | NotConfig \<Rightarrow> Inl (InvalidConfig configPath)
      | Config config \<Rightarrow> Inr config)"

section \<open>Directory tree and template selection\<close>

datatype DirectoryNode =
  DirectoryNode (name: jsstring) (path: jsstring)
    (children: "(jsstring \<times> DirectoryNode) list") (hasConfig: bool)

datatype pick = Cancel | Picked jsstring

text \<open>
  \<open>picks\<close> are the answers the user gives to the successive \<^verbatim>\<open>select\<close> prompts. The path
  stack only words the prompt.
\<close>

fun selectTemplateDir :: "DirectoryNode \<Rightarrow> jsstring list \<Rightarrow> pick list \<Rightarrow> DirectoryNode outcome" where
  "selectTemplateDir node pathStack picks =
     (if \<not> hasConfig node then Returned node
      else if length (children node) = 0 then Returned node
      else
        (case picks of
           [] \<Rightarrow> Pending
         | Cancel # rest \<Rightarrow> Exited 0
         | Picked picked # rest \<Rightarrow>
             (case mapGet (children node) picked of
                None \<Rightarrow> Exited 1
              | Some selectedChild \<Rightarrow>
                  selectTemplateDir selectedChild (pathStack @ [picked]) rest)))"

declare selectTemplateDir.simps [simp del]

text \<open>
  The builder fills the tree breadth-first through a queue of node references and adds the
  children to a node while the node already hangs in the tree. Here the queue holds the
  route to each node (the child names from the root), and the children are set at that
  route. A directory lists each name once.
\<close>

fun nodeAt :: "DirectoryNode \<Rightarrow> jsstring list \<Rightarrow> DirectoryNode option" where
  "nodeAt node [] = Some node"
| "nodeAt node (k # route) =
     (case mapGet (children node) k of None \<Rightarrow> None | Some child \<Rightarrow> nodeAt child route)"

fun updateAt :: "(DirectoryNode \<Rightarrow> DirectoryNode) \<Rightarrow> jsstring list \<Rightarrow> DirectoryNode \<Rightarrow> DirectoryNode" where
  "updateAt f [] node = f node"
| "updateAt f (k # route) node =
     (case mapGet (children node) k of
        None \<Rightarrow> node
      | Some child \<Rightarrow>
          DirectoryNode (DirectoryNode.name node) (path node)
            (mapSet k (updateAt f route child) (children node)) (hasConfig node))"

definition childNodes :: "Host \<Rightarrow> DirectoryNode \<Rightarrow> (jsstring \<times> bool) list \<Rightarrow> DirectoryNode list" where
  "childNodes h node entries =
     map (\<lambda>entry.
            (let childPath = join [path node, fst entry]
             in DirectoryNode (fst entry) childPath []
                  (existsSync h (join [childPath, str ''creator.json'']))))
       (filter (\<lambda>entry. snd entry \<and> \<not> startsWith (fst entry) (str ''.'')) entries)"

definition addChildren :: "DirectoryNode list \<Rightarrow> DirectoryNode \<Rightarrow> DirectoryNode" where
  "addChildren kids node =
     DirectoryNode (DirectoryNode.name node) (path node)
       (fold (\<lambda>childNode. mapSet (DirectoryNode.name childNode) childNode) kids (children node))
       (hasConfig node)"

partial_function (option) buildDirTree_loop ::
  "Host \<Rightarrow> jsstring list list \<Rightarrow> DirectoryNode \<Rightarrow> (error + DirectoryNode) option" where
  "buildDirTree_loop h queue root =
     (case queue of
        [] \<Rightarrow> Some (Inr root)
      | route # rest \<Rightarrow>
          (case nodeAt root route of
             None \<Rightarrow> buildDirTree_loop h rest root
           | Some node \<Rightarrow>
               (case readdir h (path node) of
                  None \<Rightarrow> Some (Inl (FsError (path node)))
                | Some entries \<Rightarrow>
                    buildDirTree_loop h
                      (rest @ map (\<lambda>childNode. route @ [DirectoryNode.name childNode])
                                (childNodes h node entries))
                      (updateAt (addChildren (childNodes h node entries)) route root))))"

declare buildDirTree_loop.simps [code]

definition buildDirTree :: "Host \<Rightarrow> jsstring \<Rightarrow> (error + DirectoryNode) option" where
  "buildDirTree h rootPath =
     buildDirTree_loop h [[]]
       (DirectoryNode (str ''.'') rootPath [] (existsSync h (join [rootPath, str ''creator.json''])))"

section \<open>Configuration cascade\<close>

text \<open>
  The walk from the selected directory up to the template root. Each step takes the parent
  with \<^verbatim>\<open>resolve(current, "..")\<close>; the root itself is put in front of the chain afterwards
  and does not enter the visited set.
\<close>

partial_function (option) pathChain_loop ::
  "Host \<Rightarrow> jsstring \<Rightarrow> jsstring \<Rightarrow> jsstring list \<Rightarrow> jsstring list
     \<Rightarrow> (jsstring list \<times> jsstring list) option" where
  "pathChain_loop h rootPath current pathChain visited =
     (if current \<noteq> [] \<and> current \<noteq> rootPath \<and> current \<notin> set visited
      then pathChain_loop h rootPath (resolve (cwd h) [current, str ''..''])
             (current # pathChain) (setAdd current visited)
      else Some (pathChain, visited))"

declare pathChain_loop.simps [code]

record Cascade =
  configs :: "CreatorConfig list"
  paths :: "jsstring list"
  selectedDirConfig :: "CreatorConfig option"

text \<open>The loop over the chain that loads the configuration file of each level.\<close>

fun loadChain :: "Host \<Rightarrow> jsstring \<Rightarrow> jsstring list \<Rightarrow> Cascade \<Rightarrow> error + Cascade" where
  "loadChain h selectedPath [] acc = Inr acc"
| "loadChain h selectedPath (dirPath # rest) acc =
     (let configPath = join [dirPath, str ''creator.json'']
      in if existsSync h configPath then
           (case loadConfig h configPath of
              Inl e \<Rightarrow> Inl e
            | Inr config \<Rightarrow>
                loadChain h selectedPath rest
                  \<lparr>configs = configs acc @ [config],
                   paths = paths acc @ [dirPath],
                   selectedDirConfig =
                     (if dirPath = selectedPath then Some config else selectedDirConfig acc)\<rparr>)
         else loadChain h selectedPath rest acc)"

text \<open>
  The loop over the \<^verbatim>\<open>copyFrom\<close> entries of the selected configuration. The state is the
  cascade so far, the visited set and the set of processed copy-from paths.
\<close>

fun loadCopyFroms ::
  "Host \<Rightarrow> jsstring \<Rightarrow> jsstring list \<Rightarrow> Cascade \<times> jsstring list \<times> jsstring list
     \<Rightarrow> error + Cascade \<times> jsstring list \<times> jsstring list" where
  "loadCopyFroms h selectedPath [] state = Inr state"
| "loadCopyFroms h selectedPath (copyPath # rest) (acc, visited, processedCopyFroms) =
     (let resolvedPath = resolve (cwd h) [selectedPath, copyPath]
      in if resolvedPath \<notin> set visited \<and> resolvedPath \<notin> set processedCopyFroms
            \<and> existsSync h resolvedPath then
           (let visited' = setAdd resolvedPath visited;
                processedCopyFroms' = setAdd resolvedPath processedCopyFroms;
                copyConfigPath = join [resolvedPath, str ''creator.json'']
            in if existsSync h copyConfigPath then
                 (case loadConfig h copyConfigPath of
                    Inl e \<Rightarrow> Inl e
                  | Inr config \<Rightarrow>
                      loadCopyFroms h selectedPath rest
                        (acc\<lparr>configs := configs acc @ [config],
                             paths := paths acc @ [resolvedPath]\<rparr>,
                         visited', processedCopyFroms'))
               else loadCopyFroms h selectedPath rest (acc, visited', processedCopyFroms'))
         else loadCopyFroms h selectedPath rest (acc, visited, processedCopyFroms))"

text \<open>
  The queue \<open>toProcess\<close> holds the selected configuration when it declares \<^verbatim>\<open>copyFrom\<close>, and
  nothing is ever added to it: its loop runs at most once.
\<close>

definition copyFromOf :: "CreatorConfig option \<Rightarrow> jsstring list option" where
  "copyFromOf config =
     (case config of
        None \<Rightarrow> None
      | Some c \<Rightarrow> (case files c of None \<Rightarrow> None | Some rules \<Rightarrow> copyFrom rules))"

definition collectAllConfigs :: "Host \<Rightarrow> DirectoryNode \<Rightarrow> jsstring \<Rightarrow> (error + Cascade) option" where
  "collectAllConfigs h selectedDir rootPath =
     (case pathChain_loop h rootPath (path selectedDir) [] [] of
        None \<Rightarrow> None
      | Some (chain, visited) \<Rightarrow>
          Some
            (case loadChain h (path selectedDir) (rootPath # chain)
                    \<lparr>configs = [], paths = [], selectedDirConfig = None\<rparr> of
               Inl e \<Rightarrow> Inl e
             | Inr acc \<Rightarrow>
                 (case copyFromOf (selectedDirConfig acc) of
                    None \<Rightarrow> Inr acc
                  | Some copyPaths \<Rightarrow>
                      (case loadCopyFroms h (path selectedDir) copyPaths (acc, visited, []) of
                         Inl e \<Rightarrow> Inl e
                       | Inr (acc', visited', processed') \<Rightarrow> Inr acc'))))"

section \<open>Merging the cascade\<close>

definition mergePrompts :: "CreatorConfig list \<Rightarrow> (jsstring, PromptConfig) jsmap" where
  "mergePrompts cfgs =
     fold (\<lambda>config promptMap.
             (case prompts config of
                None \<Rightarrow> promptMap
              | Some ps \<Rightarrow> fold (\<lambda>prompt. mapSet (PromptConfig.name prompt) prompt) ps promptMap))
       cfgs []"

definition mergeConfigs ::
  "CreatorConfig list \<Rightarrow> CreatorConfig option \<Rightarrow> PromptConfig list \<times> FileRules option" where
  "mergeConfigs cfgs selectedConfig =
     (map snd (mergePrompts cfgs),
      (case selectedConfig of None \<Rightarrow> None | Some c \<Rightarrow> files c))"

section \<open>Asking the prompts\<close>

text \<open>
  \<open>answers\<close> are what the user enters at the successive prompts. An assignment
  \<^verbatim>\<open>values[name] = v\<close> creates an own property, except for the name \<^verbatim>\<open>__proto__\<close>, whose
  setter ignores a string or boolean.
\<close>

datatype answer = Cancelled | Answered promptValue

definition assign :: "PromptValues \<Rightarrow> jsstring \<Rightarrow> promptValue \<Rightarrow> PromptValues" where
  "assign vals key v = (if key = str ''__proto__'' then vals else vals(key \<mapsto> v))"

definition Boolean :: "promptValue \<Rightarrow> bool" where
  "Boolean v = (case v of VBoolean b \<Rightarrow> b | VString s \<Rightarrow> s \<noteq> [])"

fun askPrompts :: "PromptConfig list \<Rightarrow> answer list \<Rightarrow> PromptValues \<Rightarrow> PromptValues outcome" where
  "askPrompts [] answers vals = Returned vals"
| "askPrompts (prompt # rest) [] vals = Pending"
| "askPrompts (prompt # rest) (Cancelled # answers) vals = Exited 0"
| "askPrompts (prompt # rest) (Answered result # answers) vals =
     (case type prompt of
        TextPrompt \<Rightarrow>
          askPrompts rest answers
            (assign vals (PromptConfig.name prompt) (VString (String (Primitive result))))
      | ConfirmPrompt \<Rightarrow>
          askPrompts rest answers
            (assign vals (PromptConfig.name prompt) (VBoolean (Boolean result)))
      | SelectPrompt \<Rightarrow>
          askPrompts rest answers
            (assign vals (PromptConfig.name prompt) (VString (String (Primitive result)))))"

section \<open>Resolving the file set\<close>

text \<open>
  \<open>fileMap\<close> maps a target path to a source path. The three loops of \<open>collectFileList\<close>
  run one after the other: every include pattern, then every exclude pattern, then every
  copy-from directory.
\<close>

definition includePatterns :: "FileRules option \<Rightarrow> jsstring list" where
  "includePatterns rules =
     (case rules of
        None \<Rightarrow> [str ''**/*'']
      | Some r \<Rightarrow> (case include r of None \<Rightarrow> [str ''**/*''] | Some patterns \<Rightarrow> patterns))"

definition includeScan ::
  "Host \<Rightarrow> jsstring \<Rightarrow> jsstring \<Rightarrow> (jsstring, jsstring) jsmap \<Rightarrow> (jsstring, jsstring) jsmap" where
  "includeScan h configDir pattern fileMap =
     fold (\<lambda>relPath. mapSet relPath (join [configDir, relPath])) (scan h configDir pattern) fileMap"

definition includePhase :: "Host \<Rightarrow> jsstring \<Rightarrow> FileRules option \<Rightarrow> (jsstring, jsstring) jsmap" where
  "includePhase h configDir rules = fold (includeScan h configDir) (includePatterns rules) []"

definition excludeScan ::
  "Host \<Rightarrow> jsstring \<Rightarrow> jsstring \<Rightarrow> (jsstring, jsstring) jsmap \<Rightarrow> (jsstring, jsstring) jsmap" where
  "excludeScan h configDir pattern fileMap =
     fold (\<lambda>relPath. mapDelete relPath) (scan h configDir pattern) fileMap"

definition excludePhase ::
  "Host \<Rightarrow> jsstring \<Rightarrow> FileRules option \<Rightarrow> (jsstring, jsstring) jsmap \<Rightarrow> (jsstring, jsstring) jsmap" where
  "excludePhase h configDir rules fileMap =
     (case rules of
        None \<Rightarrow> fileMap
      | Some r \<Rightarrow>
          (case exclude r of
             None \<Rightarrow> fileMap
           | Some patterns \<Rightarrow>
               if length patterns \<noteq> 0 then fold (excludeScan h configDir) patterns fileMap
               else fileMap))"

definition relFromRoot :: "Host \<Rightarrow> jsstring \<Rightarrow> jsstring \<Rightarrow> jsstring" where
  "relFromRoot h templateRoot sourcePath =
     replace
       (replace (resolve (cwd h) [sourcePath]) (resolve (cwd h) [templateRoot] @ [0x5C]) [])
       (resolve (cwd h) [templateRoot] @ str ''/'') []"

definition copyFromScan ::
  "Host \<Rightarrow> jsstring \<Rightarrow> jsstring \<Rightarrow> jsstring \<Rightarrow> (jsstring, jsstring) jsmap
     \<Rightarrow> (jsstring, jsstring) jsmap" where
  "copyFromScan h templateRoot configDir copyPath fileMap =
     (let resolvedCopyPath = resolve (cwd h) [join [configDir, copyPath]]
      in if \<not> existsSync h resolvedCopyPath then fileMap
         else if \<not> isDirectory h resolvedCopyPath then fileMap
         else
           fold (\<lambda>relPath.
                   (let sourcePath = join [resolvedCopyPath, relPath]
                    in mapSet (relFromRoot h templateRoot sourcePath) sourcePath))
             (scan h resolvedCopyPath (str ''**/*'')) fileMap)"

definition copyFromPhase ::
  "Host \<Rightarrow> jsstring \<Rightarrow> jsstring \<Rightarrow> FileRules option \<Rightarrow> (jsstring, jsstring) jsmap
     \<Rightarrow> (jsstring, jsstring) jsmap" where
  "copyFromPhase h templateRoot configDir rules fileMap =
     (case rules of
        None \<Rightarrow> fileMap
      | Some r \<Rightarrow>
          (case copyFrom r of
             None \<Rightarrow> fileMap
           | Some copyPaths \<Rightarrow>
               if length copyPaths \<noteq> 0
               then fold (copyFromScan h templateRoot configDir) copyPaths fileMap
               else fileMap))"

definition resolvedFileMap ::
  "Host \<Rightarrow> jsstring \<Rightarrow> jsstring \<Rightarrow> FileRules option \<Rightarrow> (jsstring, jsstring) jsmap" where
  "resolvedFileMap h templateRoot configDir rules =
     copyFromPhase h templateRoot configDir rules
       (excludePhase h configDir rules (includePhase h configDir rules))"

record FileEntry =
  sourcePath :: jsstring
  targetPath :: jsstring

definition collectFileList :: "Host \<Rightarrow> jsstring \<Rightarrow> jsstring \<Rightarrow> FileRules option \<Rightarrow> FileEntry list" where
  "collectFileList h templateRoot configDir rules =
     map (\<lambda>entry. \<lparr>sourcePath = snd entry, targetPath = fst entry\<rparr>)
       (resolvedFileMap h templateRoot configDir rules)"

section \<open>Copying and rendering\<close>

datatype action =
    MakeDirectory jsstring
  | WriteBytes jsstring "byte list"
  | WriteText jsstring jsstring

text \<open>
  One round of the loop of \<open>copyTemplate\<close>: the writes it performs, none when the entry is
  skipped, or the error of a failed file system call.
\<close>

definition copyEntry :: "Host \<Rightarrow> jsstring \<Rightarrow> PromptValues \<Rightarrow> FileEntry \<Rightarrow> error + action list" where
  "copyEntry h outputRoot data entry =
     (if isSubPath (targetPath entry) (str ''.git'') then Inr []
      else if endsWith (targetPath entry) (str ''creator.json'') then Inr []
      else
        (case lstat h (sourcePath entry) of
           None \<Rightarrow> Inl (FsError (sourcePath entry))
         | Some kind \<Rightarrow>
             (let fullTargetPath = join [outputRoot, targetPath entry]
              in if kind = Directory then Inr [MakeDirectory fullTargetPath]
                 else if kind \<noteq> RegularFile then Inr []
                 else
                   (case readFile h (sourcePath entry) of
                      None \<Rightarrow> Inl (FsError (sourcePath entry))
                    | Some buffer \<Rightarrow>
                        if isBinaryBuffer buffer
                        then Inr [MakeDirectory (join [fullTargetPath, str ''..'']),
                                  WriteBytes fullTargetPath buffer]
                        else Inr [MakeDirectory (join [fullTargetPath, str ''..'']),
                                  WriteText fullTargetPath
                                    (renderTemplate (utf8Decode h buffer) data)]))))"

text \<open>The loop stops at the first error; what was written before it stays written.\<close>

fun copyEntries ::
  "Host \<Rightarrow> jsstring \<Rightarrow> PromptValues \<Rightarrow> FileEntry list \<Rightarrow> action list \<times> error option" where
  "copyEntries h outputRoot data [] = ([], None)"
| "copyEntries h outputRoot data (entry # rest) =
     (case copyEntry h outputRoot data entry of
        Inl e \<Rightarrow> ([], Some e)
      | Inr written \<Rightarrow>
          (case copyEntries h outputRoot data rest of
             (written', failure) \<Rightarrow> (written @ written', failure)))"

definition copyTemplate ::
  "Host \<Rightarrow> jsstring \<Rightarrow> jsstring \<Rightarrow> PromptValues \<Rightarrow> jsstring \<Rightarrow> FileRules option
     \<Rightarrow> action list \<times> error option" where
  "copyTemplate h templateRoot outputRoot data configDir rules =
     copyEntries h outputRoot data (collectFileList h templateRoot configDir rules)"

section \<open>The run from the template root on\<close>

text \<open>
  \<open>main\<close> from the point where the template root is known: the check that it exists, the
  switch to a \<^verbatim>\<open>template\<close> subdirectory, then tree, selection, cascade, merge, prompts and
  copy. \<open>scaffold\<close> is the part behind the switch.
\<close>

record Scaffold =
  selectedDir :: DirectoryNode
  cascade :: Cascade
  written :: "action list"
  failure :: "error option"

definition scaffold ::
  "Host \<Rightarrow> jsstring \<Rightarrow> jsstring \<Rightarrow> pick list \<Rightarrow> answer list \<Rightarrow> Scaffold outcome option" where
  "scaffold h templateRoot outputRoot picks answers =
     (case buildDirTree h templateRoot of
        None \<Rightarrow> None
      | Some (Inl e) \<Rightarrow> Some (Thrown e)
      | Some (Inr dirTree) \<Rightarrow>
          (case selectTemplateDir dirTree [] picks of
             Exited code \<Rightarrow> Some (Exited code)
           | Thrown e \<Rightarrow> Some (Thrown e)
           | Pending \<Rightarrow> Some Pending
           | Returned selected \<Rightarrow>
               (case collectAllConfigs h selected templateRoot of
                  None \<Rightarrow> None
                | Some (Inl e) \<Rightarrow> Some (Thrown e)
                | Some (Inr collected) \<Rightarrow>
                    (case mergeConfigs (configs collected) (selectedDirConfig collected) of
                       (merged, rules) \<Rightarrow>
                         (case askPrompts merged answers Map.empty of
                            Exited code \<Rightarrow> Some (Exited code)
                          | Thrown e \<Rightarrow> Some (Thrown e)
                          | Pending \<Rightarrow> Some Pending
                          | Returned vals \<Rightarrow>
                              (case copyTemplate h templateRoot outputRoot vals
                                      (path selected) rules of
                                 (acts, err) \<Rightarrow>
                                   Some (Returned
                                     \<lparr>selectedDir = selected, cascade = collected,
                                      written = acts, failure = err\<rparr>)))))))"

definition effectiveTemplateRoot :: "Host \<Rightarrow> jsstring \<Rightarrow> jsstring" where
  "effectiveTemplateRoot h templateRoot =
     (let templateSubDir = join [templateRoot, str ''template'']
      in if existsSync h templateSubDir \<and> isDirectory h templateSubDir then templateSubDir
         else templateRoot)"

definition main ::
  "Host \<Rightarrow> jsstring \<Rightarrow> jsstring \<Rightarrow> pick list \<Rightarrow> answer list \<Rightarrow> Scaffold outcome option" where
  "main h templateRoot outputRoot picks answers =
     (if \<not> existsSync h templateRoot then Some (Exited 1)
      else scaffold h (effectiveTemplateRoot h templateRoot) outputRoot picks answers)"

section \<open>Notions of the statements, example hosts and inputs\<close>

text \<open>
  A host whose every file holds 8000 letters, then a zero byte and a byte that is no
  UTF-8, and decodes to a text with one placeholder.
\<close>

definition hostC7 :: Host where
  "hostC7 =
     \<lparr>cwd = str ''/'', existsSync = (\<lambda>p. True), isDirectory = (\<lambda>p. False),
      lstat = (\<lambda>p. Some RegularFile),
      readFile = (\<lambda>p. Some (replicate 8000 0x41 @ [0x00, 0xFF])),
      readdir = (\<lambda>p. None), scan = (\<lambda>dir pattern. []), configFile = (\<lambda>p. Unreadable),
      utf8Decode = (\<lambda>buffer. str ''<%= name %>'')\<rparr>"

text \<open>
  The skip condition as the specification words it: the path is a \<^verbatim>\<open>.git\<close> directory or
  lies below one at any depth (some segment is \<^verbatim>\<open>.git\<close>), or it ends with the name of the
  configuration file.
\<close>

definition spec_skippedPath :: "jsstring \<Rightarrow> bool" where
  "spec_skippedPath relPath \<longleftrightarrow>
     str ''.git'' \<in> set (splitOn 0x2F relPath) \<or> endsWith relPath (str ''creator.json'')"

text \<open>A host whose every path is a regular file holding the single letter \<^verbatim>\<open>x\<close>.\<close>

definition hostC9 :: Host where
  "hostC9 =
     \<lparr>cwd = str ''/'', existsSync = (\<lambda>p. True), isDirectory = (\<lambda>p. False),
      lstat = (\<lambda>p. Some RegularFile), readFile = (\<lambda>p. Some [0x78]),
      readdir = (\<lambda>p. None), scan = (\<lambda>dir pattern. []), configFile = (\<lambda>p. Unreadable),
      utf8Decode = map ucast\<rparr>"

text \<open>
  A tree whose root and whose directory \<^verbatim>\<open>cli\<close> own a configuration file, as does the leaf
  \<^verbatim>\<open>cli/full\<close>; \<^verbatim>\<open>web\<close> owns none.
\<close>

definition treeC6 :: DirectoryNode where
  "treeC6 =
     DirectoryNode (str ''.'') (str ''/t'')
       [(str ''web'',
         DirectoryNode (str ''web'') (str ''/t/web'')
           [(str ''src'', DirectoryNode (str ''src'') (str ''/t/web/src'') [] False)] False),
        (str ''cli'',
         DirectoryNode (str ''cli'') (str ''/t/cli'')
           [(str ''full'', DirectoryNode (str ''full'') (str ''/t/cli/full'') [] True)] True)]
       True"

text \<open>
  Every prompt of the cascade in cascade order, and the order of first occurrence: a list
  with the first copy of each element kept and the later copies dropped.
\<close>

definition cascadePrompts :: "CreatorConfig list \<Rightarrow> PromptConfig list" where
  "cascadePrompts cfgs =
     concat (map (\<lambda>config. case prompts config of None \<Rightarrow> [] | Some ps \<Rightarrow> ps) cfgs)"

primrec keepFirst :: "'a list \<Rightarrow> 'a list" where
  "keepFirst [] = []"
| "keepFirst (x # xs) = x # removeAll x (keepFirst xs)"

text \<open>
  A cascade of a root, an ancestor without prompts, the selected directory and a copy-from
  directory; the names \<^verbatim>\<open>name\<close> and \<^verbatim>\<open>license\<close> occur twice.
\<close>

definition promptC3 :: "string \<Rightarrow> PromptType \<Rightarrow> string \<Rightarrow> PromptConfig" where
  "promptC3 n t m =
     \<lparr>PromptConfig.name = str n, type = t, message = str m, initial = None, options = None\<rparr>"

definition cascadeC3 :: "CreatorConfig list" where
  "cascadeC3 =
     [\<lparr>CreatorConfig.name = None, description = None,
       prompts = Some [promptC3 ''name'' TextPrompt ''root name'',
                       promptC3 ''license'' TextPrompt ''root license''],
       files = None\<rparr>,
      \<lparr>CreatorConfig.name = None, description = None, prompts = None, files = None\<rparr>,
      \<lparr>CreatorConfig.name = None, description = None,
       prompts = Some [promptC3 ''author'' TextPrompt ''leaf author'',
                       promptC3 ''name'' SelectPrompt ''leaf name''],
       files = None\<rparr>,
      \<lparr>CreatorConfig.name = None, description = None,
       prompts = Some [promptC3 ''license'' ConfirmPrompt ''shared license''],
       files = None\<rparr>]"

text \<open>
  A template root \<^verbatim>\<open>/t\<close> with a configuration file and a directory \<^verbatim>\<open>/t/web\<close> whose
  configuration overrides the prompt of the root and names the root as a copy-from
  directory.
\<close>

definition rootConfigC2 :: CreatorConfig where
  "rootConfigC2 =
     \<lparr>CreatorConfig.name = None, description = None,
      prompts = Some [\<lparr>PromptConfig.name = str ''name'', type = TextPrompt,
                       message = str ''Project name'', initial = Some (str ''app''),
                       options = None\<rparr>],
      files = None\<rparr>"

definition webConfigC2 :: CreatorConfig where
  "webConfigC2 =
     \<lparr>CreatorConfig.name = None, description = None,
      prompts = Some [\<lparr>PromptConfig.name = str ''name'', type = TextPrompt,
                       message = str ''Web project name'', initial = Some (str ''web''),
                       options = None\<rparr>],
      files = Some \<lparr>include = None, exclude = None, copyFrom = Some [str ''..'']\<rparr>\<rparr>"

definition hostC2 :: Host where
  "hostC2 =
     \<lparr>cwd = str ''/'',
      existsSync = (\<lambda>p. p \<in> set [str ''/t'', str ''/t/creator.json'', str ''/t/web'',
                                   str ''/t/web/creator.json'']),
      isDirectory = (\<lambda>p. p \<in> set [str ''/t'', str ''/t/web'']),
      lstat = (\<lambda>p. None), readFile = (\<lambda>p. None), readdir = (\<lambda>p. None),
      scan = (\<lambda>dir pattern. []),
      configFile = (\<lambda>p. if p = str ''/t/creator.json'' then Config rootConfigC2
                         else if p = str ''/t/web/creator.json'' then Config webConfigC2
                         else Unreadable),
      utf8Decode = (\<lambda>buffer. [])\<rparr>"

text \<open>
  What the upward walk keeps true of its chain and its visited set: the same members, none
  of them twice, the root not among them.
\<close>

definition chainInvariant :: "jsstring \<Rightarrow> jsstring list \<Rightarrow> jsstring list \<Rightarrow> bool" where
  "chainInvariant rootPath pathChain visited \<longleftrightarrow>
     set pathChain = set visited \<and> distinct pathChain \<and> rootPath \<notin> set pathChain"

text \<open>
  The files the copy-from loop visits, each with the key it is stored under and its
  absolute source path, in the order of the loop: for one copy-from path, and for the whole
  list.
\<close>

definition copyFromEntries ::
  "Host \<Rightarrow> jsstring \<Rightarrow> jsstring \<Rightarrow> jsstring \<Rightarrow> (jsstring \<times> jsstring) list" where
  "copyFromEntries h templateRoot configDir copyPath =
     (let resolvedCopyPath = resolve (cwd h) [join [configDir, copyPath]]
      in if existsSync h resolvedCopyPath \<and> isDirectory h resolvedCopyPath
         then map (\<lambda>relPath. (relFromRoot h templateRoot (join [resolvedCopyPath, relPath]),
                              join [resolvedCopyPath, relPath]))
                (scan h resolvedCopyPath (str ''**/*''))
         else [])"

definition allCopyFromEntries ::
  "Host \<Rightarrow> jsstring \<Rightarrow> jsstring \<Rightarrow> jsstring list \<Rightarrow> (jsstring \<times> jsstring) list" where
  "allCopyFromEntries h templateRoot configDir copyPaths =
     concat (map (copyFromEntries h templateRoot configDir) copyPaths)"

text \<open>
  A template root \<^verbatim>\<open>/r\<close> with the directories \<^verbatim>\<open>t\<close>, \<^verbatim>\<open>shared\<close>, \<^verbatim>\<open>a/t\<close> and
  \<^verbatim>\<open>a/shared\<close>; \<^verbatim>\<open>/r/t\<close> holds \<^verbatim>\<open>a.txt\<close> and \<^verbatim>\<open>shared/x.txt\<close>, both shared directories
  hold \<^verbatim>\<open>x.txt\<close>. Two rule sets: one that copies from \<^verbatim>\<open>../shared\<close>, one that includes
  \<^verbatim>\<open>a.txt\<close> by a second pattern and excludes it.
\<close>

definition hostFiles :: Host where
  "hostFiles =
     \<lparr>cwd = str ''/'',
      existsSync = (\<lambda>p. p \<in> set [str ''/r'', str ''/r/t'', str ''/r/shared'', str ''/r/a'',
                                   str ''/r/a/t'', str ''/r/a/shared'']),
      isDirectory = (\<lambda>p. p \<in> set [str ''/r'', str ''/r/t'', str ''/r/shared'', str ''/r/a'',
                                    str ''/r/a/t'', str ''/r/a/shared'']),
      lstat = (\<lambda>p. Some RegularFile), readFile = (\<lambda>p. Some []), readdir = (\<lambda>p. None),
      scan = (\<lambda>dir pattern.
                if dir = str ''/r/t'' \<and> pattern = str ''**/*'' then [str ''a.txt'', str ''shared/x.txt'']
                else if dir = str ''/r/t'' \<and> pattern = str ''a.txt'' then [str ''a.txt'']
                else if dir = str ''/r/t'' \<and> pattern = str ''shared/**'' then [str ''shared/x.txt'']
                else if dir = str ''/r/shared'' \<and> pattern = str ''**/*'' then [str ''x.txt'']
                else if dir = str ''/r/a/t'' \<and> pattern = str ''**/*'' then [str ''main.txt'']
                else if dir = str ''/r/a/shared'' \<and> pattern = str ''**/*'' then [str ''x.txt'']
                else []),
      configFile = (\<lambda>p. Unreadable), utf8Decode = (\<lambda>buffer. [])\<rparr>"

definition rulesShared :: FileRules where
  "rulesShared = \<lparr>include = None, exclude = None, copyFrom = Some [str ''../shared'']\<rparr>"

definition rulesReinclude :: FileRules where
  "rulesReinclude =
     \<lparr>include = Some [str ''**/*'', str ''a.txt''], exclude = Some [str ''a.txt''],
      copyFrom = None\<rparr>"

text \<open>
  A host whose named template root \<^verbatim>\<open>/r\<close> holds nothing but the directory \<^verbatim>\<open>template\<close>;
  the configuration files, the selectable directory \<^verbatim>\<open>web\<close> and the directory \<^verbatim>\<open>shared\<close>
  lie inside it. Every file holds the text \<^verbatim>\<open><%=name%>\<close>.
\<close>

definition rootConfigC10 :: CreatorConfig where
  "rootConfigC10 =
     \<lparr>CreatorConfig.name = None, description = None,
      prompts = Some [\<lparr>PromptConfig.name = str ''name'', type = TextPrompt,
                       message = str ''Project name'', initial = Some (str ''app''),
                       options = None\<rparr>],
      files = None\<rparr>"

definition webConfigC10 :: CreatorConfig where
  "webConfigC10 =
     \<lparr>CreatorConfig.name = None, description = None, prompts = None,
      files = Some \<lparr>include = None, exclude = None, copyFrom = Some [str ''../shared'']\<rparr>\<rparr>"

definition hostC10 :: Host where
  "hostC10 =
     \<lparr>cwd = str ''/'',
      existsSync = (\<lambda>p. p \<in> set [str ''/r'', str ''/r/template'', str ''/r/template/creator.json'',
                                   str ''/r/template/web'', str ''/r/template/web/creator.json'',
                                   str ''/r/template/web/a.txt'', str ''/r/template/shared'',
                                   str ''/r/template/shared/x.txt'']),
      isDirectory = (\<lambda>p. p \<in> set [str ''/r'', str ''/r/template'', str ''/r/template/web'',
                                    str ''/r/template/shared'']),
      lstat = (\<lambda>p. Some RegularFile),
      readFile = (\<lambda>p. Some [0x3C, 0x25, 0x3D, 0x6E, 0x61, 0x6D, 0x65, 0x25, 0x3E]),
      readdir = (\<lambda>p. if p = str ''/r'' then Some [(str ''template'', True)]
                      else if p = str ''/r/template''
                        then Some [(str ''creator.json'', False), (str ''web'', True),
                                   (str ''shared'', True)]
                      else if p = str ''/r/template/web''
                        then Some [(str ''creator.json'', False), (str ''a.txt'', False)]
                      else if p = str ''/r/template/shared'' then Some [(str ''x.txt'', False)]
                      else None),
      scan = (\<lambda>dir pattern.
                if dir = str ''/r/template/web'' \<and> pattern = str ''**/*''
                  then [str ''creator.json'', str ''a.txt'']
                else if dir = str ''/r/template/shared'' \<and> pattern = str ''**/*''
                  then [str ''x.txt'']
                else []),
      configFile = (\<lambda>p. if p = str ''/r/template/creator.json'' then Config rootConfigC10
                         else if p = str ''/r/template/web/creator.json'' then Config webConfigC10
                         else Unreadable),
      utf8Decode = map ucast\<rparr>"





section \<open>Binary detection decides between copying and rendering\<close>

lemma isBinaryBuffer_loop_iff:
  "isBinaryBuffer_loop buffer limit i \<longleftrightarrow> (\<exists>j. i \<le> j \<and> j < limit \<and> buffer ! j = 0)"
proof (induction buffer limit i rule: isBinaryBuffer_loop.induct)
  case (1 buffer limit i)
  show ?case
  proof (cases "i < limit")
    case False
    then show ?thesis by (subst isBinaryBuffer_loop.simps) auto
  next
    case True
    show ?thesis
    proof (cases "buffer ! i = 0")
      case True
      with \<open>i < limit\<close> show ?thesis by (subst isBinaryBuffer_loop.simps) auto
    next
      case False
      with \<open>i < limit\<close> 1
      have "isBinaryBuffer_loop buffer limit i \<longleftrightarrow> (\<exists>j. i + 1 \<le> j \<and> j < limit \<and> buffer ! j = 0)"
        by (subst isBinaryBuffer_loop.simps) simp
      also have "\<dots> \<longleftrightarrow> (\<exists>j. i \<le> j \<and> j < limit \<and> buffer ! j = 0)"
        using False by (metis Suc_eq_plus1 Suc_leI le_neq_implies_less Suc_leD)
      finally show ?thesis .
    qed
  qed
qed

lemma isBinaryBuffer_iff: "isBinaryBuffer buffer \<longleftrightarrow> 0 \<in> set (take 8000 buffer)"
  by (auto simp: isBinaryBuffer_def isBinaryBuffer_loop_iff in_set_conv_nth)

text \<open>
  C7. A buffer is binary exactly when one of its first 8000 bytes is zero. A regular file
  that passes the path checks is written byte for byte when its buffer is binary, and is
  otherwise decoded and written with its placeholders substituted, whatever lies behind
  byte 8000.
\<close>

theorem binary_detection:
  assumes "\<not> isSubPath (targetPath entry) (str ''.git'')"
    and "\<not> endsWith (targetPath entry) (str ''creator.json'')"
    and "lstat h (sourcePath entry) = Some RegularFile"
    and "readFile h (sourcePath entry) = Some buffer"
  shows "(isBinaryBuffer buffer \<longleftrightarrow> (\<exists>i. i < min (length buffer) 8000 \<and> buffer ! i = 0)) \<and>
         copyEntry h outputRoot data entry =
           (if 0 \<in> set (take 8000 buffer)
            then Inr [MakeDirectory (join [join [outputRoot, targetPath entry], str ''..'']),
                      WriteBytes (join [outputRoot, targetPath entry]) buffer]
            else Inr [MakeDirectory (join [join [outputRoot, targetPath entry], str ''..'']),
                      WriteText (join [outputRoot, targetPath entry])
                        (renderTemplate (utf8Decode h buffer) data)])"
proof
  show "isBinaryBuffer buffer \<longleftrightarrow> (\<exists>i. i < min (length buffer) 8000 \<and> buffer ! i = 0)"
    by (simp add: isBinaryBuffer_def isBinaryBuffer_loop_iff)
next
  show "copyEntry h outputRoot data entry =
           (if 0 \<in> set (take 8000 buffer)
            then Inr [MakeDirectory (join [join [outputRoot, targetPath entry], str ''..'']),
                      WriteBytes (join [outputRoot, targetPath entry]) buffer]
            else Inr [MakeDirectory (join [join [outputRoot, targetPath entry], str ''..'']),
                      WriteText (join [outputRoot, targetPath entry])
                        (renderTemplate (utf8Decode h buffer) data)])"
    using assms by (simp add: copyEntry_def Let_def isBinaryBuffer_iff)
qed

lemma render_name_demo:
  "renderTemplate (str ''<%= name %>'') [str ''name'' \<mapsto> VString (str ''demo'')] = str ''demo''"
  by code_simp

lemma join_out_big:
  "join [str ''/out'', str ''big.txt''] = str ''/out/big.txt''"
  "join [str ''/out/big.txt'', str ''..''] = str ''/out''"
  by code_simp+

theorem binary_detection_witness:
  "copyEntry hostC7 (str ''/out'') [str ''name'' \<mapsto> VString (str ''demo'')]
     \<lparr>sourcePath = str ''/t/big.txt'', targetPath = str ''big.txt''\<rparr>
   = Inr [MakeDirectory (str ''/out''), WriteText (str ''/out/big.txt'') (str ''demo'')]"
proof -
  have a: "\<not> isSubPath (str ''big.txt'') (str ''.git'')" by code_simp
  have b: "\<not> endsWith (str ''big.txt'') (str ''creator.json'')" by code_simp
  have c: "0 \<notin> set (take 8000 (replicate 8000 (0x41::byte) @ [0x00, 0xFF]))" by simp
  show ?thesis
    using binary_detection [of "\<lparr>sourcePath = str ''/t/big.txt'', targetPath = str ''big.txt''\<rparr>"
        hostC7 "replicate 8000 0x41 @ [0x00, 0xFF]" "str ''/out''"
        "[str ''name'' \<mapsto> VString (str ''demo'')]"] a b c
    by (simp add: hostC7_def render_name_demo join_out_big)
qed

section \<open>Placeholder substitution\<close>

text \<open>
  The scan of \<open>matchPlaceholder\<close> accepts exactly the texts of the pattern: the opening
  delimiter, white space, a non-empty key, white space, the closing delimiter.
\<close>

lemma keyChar_not_space: "isKeyChar c \<Longrightarrow> \<not> isSpace c"
  by (auto simp: isKeyChar_def isSpace_def word_le_nat_alt)

lemma percent_class: "\<not> isSpace 0x25" "\<not> isKeyChar 0x25"
  by (simp_all add: isKeyChar_def isSpace_def)

lemma str_open: "str ''<%='' = [0x3C, 0x25, 0x3D]"
  by (simp add: str_def)

lemma str_close: "str ''%>'' = [0x25, 0x3E]"
  by (simp add: str_def)

lemma matchPlaceholder_shape:
  assumes ws1: "\<forall>c \<in> set ws1. isSpace c" and ws2: "\<forall>c \<in> set ws2. isSpace c"
    and key: "key \<noteq> []" "\<forall>c \<in> set key. isKeyChar c"
  shows "matchPlaceholder (str ''<%='' @ ws1 @ key @ ws2 @ str ''%>'' @ rest) = Some (key, rest)"
proof -
  define close where "close = str ''%>'' @ rest"
  define tail where "tail = ws2 @ close"
  define body where "body = ws1 @ key @ tail"
  define s where "s = str ''<%='' @ body"
  from key obtain k ks where k: "key = k # ks" "\<not> isSpace k"
    by (cases key) (auto dest: keyChar_not_space)
  have tail_key: "takeWhile isKeyChar tail = []" "dropWhile isKeyChar tail = tail"
    using ws2 unfolding tail_def close_def
    by (cases ws2; auto simp: str_close percent_class dest: keyChar_not_space)+
  have d1: "dropWhile isSpace body = key @ tail"
    using ws1 k unfolding body_def by (simp add: dropWhile_append2)
  have t: "takeWhile isKeyChar (key @ tail) = key"
    using key(2) tail_key by (simp add: takeWhile_append2)
  have d2: "dropWhile isKeyChar (key @ tail) = tail"
    using key(2) tail_key by (simp add: dropWhile_append2)
  have d3: "dropWhile isSpace tail = close"
    using ws2 unfolding tail_def close_def by (simp add: dropWhile_append2 str_close percent_class)
  have p: "startsWith s (str ''<%='')"
    unfolding s_def by (simp add: startsWith_def)
  have dr: "drop 3 s = body"
    unfolding s_def by (simp add: str_open)
  have q: "startsWith close (str ''%>'')" "drop 2 close = rest"
    unfolding close_def by (simp_all add: startsWith_def str_close)
  have "matchPlaceholder s = Some (key, rest)"
    unfolding matchPlaceholder_def using key(1) by (simp add: p dr d1 t d2 d3 q Let_def)
  then show ?thesis
    unfolding s_def body_def tail_def close_def .
qed

lemma matchPlaceholder_sound:
  assumes "matchPlaceholder s = Some (key, rest)"
  shows "\<exists>ws1 ws2. s = str ''<%='' @ ws1 @ key @ ws2 @ str ''%>'' @ rest
           \<and> (\<forall>c \<in> set ws1. isSpace c) \<and> (\<forall>c \<in> set ws2. isSpace c)
           \<and> key \<noteq> [] \<and> (\<forall>c \<in> set key. isKeyChar c)"
proof -
  define s0 where "s0 = drop 3 s"
  define s1 where "s1 = dropWhile isSpace s0"
  define s1' where "s1' = dropWhile isKeyChar s1"
  define s2 where "s2 = dropWhile isSpace s1'"
  from assms have p: "startsWith s (str ''<%='')" and k: "key = takeWhile isKeyChar s1"
    and ne: "key \<noteq> []" and q: "startsWith s2 (str ''%>'')" and r: "rest = drop 2 s2"
    by (auto simp: matchPlaceholder_def Let_def s0_def s1_def s1'_def s2_def split: if_splits)
  from p have a: "s = str ''<%='' @ s0"
    by (auto simp: startsWith_def prefix_def s0_def str_open)
  have b: "s0 = takeWhile isSpace s0 @ s1"
    unfolding s1_def by simp
  have c: "s1 = key @ s1'"
    unfolding k s1'_def by simp
  have d: "s1' = takeWhile isSpace s1' @ s2"
    unfolding s2_def by simp
  from q have e: "s2 = str ''%>'' @ rest"
    by (auto simp: startsWith_def prefix_def r str_close)
  have "s = str ''<%='' @ takeWhile isSpace s0 @ key @ takeWhile isSpace s1' @ str ''%>'' @ rest"
    using a b c d e by metis
  moreover have "\<forall>c \<in> set (takeWhile isSpace s0). isSpace c"
    "\<forall>c \<in> set (takeWhile isSpace s1'). isSpace c" "\<forall>c \<in> set key. isKeyChar c"
    unfolding k by (auto dest: set_takeWhileD)
  ultimately show ?thesis using ne by blast
qed

text \<open>
  Text without \<^verbatim>\<open><\<close> is copied, and a placeholder behind such text is replaced by what the
  replacer returns for its key: the string form of an own value, and the empty string for
  a key that is neither an own property nor inherited from \<^verbatim>\<open>Object.prototype\<close>.
\<close>

lemma render_plain: "0x3C \<notin> set s \<Longrightarrow> renderTemplate s data = s"
proof (induction s)
  case Nil
  then show ?case by simp
next
  case (Cons c cs)
  then have "matchPlaceholder (c # cs) = None"
    by (auto simp: matchPlaceholder_def startsWith_def str_open)
  with Cons show ?case by simp
qed

lemma render_prefix:
  "0x3C \<notin> set pre \<Longrightarrow> renderTemplate (pre @ s) data = pre @ renderTemplate s data"
proof (induction pre)
  case Nil
  then show ?case by simp
next
  case (Cons c cs)
  then have "matchPlaceholder (c # cs @ s) = None"
    by (auto simp: matchPlaceholder_def startsWith_def str_open)
  with Cons show ?case by simp
qed

lemma render_placeholder:
  assumes "\<forall>c \<in> set ws1. isSpace c" and "\<forall>c \<in> set ws2. isSpace c"
    and "key \<noteq> []" and "\<forall>c \<in> set key. isKeyChar c" and "0x3C \<notin> set pre"
  shows "renderTemplate (pre @ str ''<%='' @ ws1 @ key @ ws2 @ str ''%>'' @ rest) data
         = pre @ replacer data key @ renderTemplate rest data"
proof -
  have m: "matchPlaceholder (str ''<%='' @ ws1 @ key @ ws2 @ str ''%>'' @ rest) = Some (key, rest)"
    using assms(1-4) by (rule matchPlaceholder_shape)
  obtain c cs where c: "str ''<%='' @ ws1 @ key @ ws2 @ str ''%>'' @ rest = c # cs"
    by (simp add: str_open)
  have "renderTemplate (c # cs) data = replacer data key @ renderTemplate rest data"
    using m unfolding c by simp
  then show ?thesis
    using assms(5) by (simp add: render_prefix c)
qed

lemma replacer_present: "data key = Some v \<Longrightarrow> replacer data key = String (Primitive v)"
  by (simp add: replacer_def getProperty_def)

lemma replacer_absent:
  "data key = None \<Longrightarrow> key \<noteq> str ''__proto__'' \<Longrightarrow> key \<notin> fst ` set objectPrototypeMethods
     \<Longrightarrow> replacer data key = []"
  by (simp add: replacer_def getProperty_def map_of_eq_None_iff split: option.splits)

lemma replacer_inherited:
  "data key = None \<Longrightarrow> key = str ''__proto__'' \<or> key \<in> fst ` set objectPrototypeMethods
     \<Longrightarrow> replacer data key \<noteq> []"
  by (auto simp: replacer_def getProperty_def str_def map_of_eq_None_iff split: option.splits)


text \<open>
  C8. With the answers \<^verbatim>\<open>{name: "demo"}\<close> the placeholder of \<^verbatim>\<open>name\<close> renders to
  \<^verbatim>\<open>demo\<close> and the placeholder of \<^verbatim>\<open>missing\<close> to the empty string, but the placeholder of
  \<^verbatim>\<open>__proto__\<close>, a key that is just as absent from the answers, renders to the string form of
  the object prototype instead of the empty string.
\<close>

theorem inherited_property_rendered:
  "renderTemplate (str ''<%= name %>|<%=missing%>|<%= __proto__ %>'')
     [str ''name'' \<mapsto> VString (str ''demo'')] = str ''demo||[object Object]''"
  by code_simp

section \<open>Entries that are skipped\<close>

text \<open>
  C9, as stated, fails: a file below a nested \<^verbatim>\<open>.git\<close> directory meets the stated skip
  condition and is copied all the same.
\<close>

theorem nested_git_counterexample:
  "spec_skippedPath (str ''sub/.git/x'') \<and>
   copyEntry hostC9 (str ''/out'') Map.empty
     \<lparr>sourcePath = str ''/t/sub/.git/x'', targetPath = str ''sub/.git/x''\<rparr>
   = Inr [MakeDirectory (str ''/out/sub/.git''), WriteText (str ''/out/sub/.git/x'') (str ''x'')]"
  by code_simp

lemma str_append: "str (a @ b) = str a @ str b"
  by (simp add: str_def)

text \<open>
  C9, amended. An entry is passed over without any write exactly when its target path is
  \<^verbatim>\<open>.git\<close>, starts with \<^verbatim>\<open>.git/\<close> or with \<^verbatim>\<open>.git\<close> and a backslash, or ends with
  \<^verbatim>\<open>creator.json\<close>, or when its source is neither a regular file nor a directory.
\<close>

theorem skip_rule:
  "copyEntry h outputRoot data entry = Inr [] \<longleftrightarrow>
     targetPath entry = str ''.git''
     \<or> startsWith (targetPath entry) (str ''.git/'')
     \<or> startsWith (targetPath entry) (str (''.git'' @ [CHR 0x5C]))
     \<or> endsWith (targetPath entry) (str ''creator.json'')
     \<or> lstat h (sourcePath entry) = Some OtherKind"
proof -
  have sub: "isSubPath (targetPath entry) (str ''.git'') \<longleftrightarrow>
      targetPath entry = str ''.git'' \<or> startsWith (targetPath entry) (str ''.git/'')
      \<or> startsWith (targetPath entry) (str (''.git'' @ [CHR 0x5C]))"
    unfolding isSubPath_def str_append [symmetric] by simp
  show ?thesis
  proof (cases "isSubPath (targetPath entry) (str ''.git'') \<or> endsWith (targetPath entry) (str ''creator.json'')")
    case True
    then have "copyEntry h outputRoot data entry = Inr []"
      by (auto simp: copyEntry_def)
    with True sub show ?thesis by auto
  next
    case False
    have "copyEntry h outputRoot data entry = Inr [] \<longleftrightarrow> lstat h (sourcePath entry) = Some OtherKind"
    proof (cases "lstat h (sourcePath entry)")
      case None
      with False show ?thesis by (simp add: copyEntry_def)
    next
      case (Some kind)
      with False show ?thesis
        by (cases kind) (auto simp: copyEntry_def Let_def split: option.splits)
    qed
    with False sub show ?thesis by auto
  qed
qed

theorem skip_rule_witness:
  "copyEntry hostC9 (str ''/out'') Map.empty
     \<lparr>sourcePath = str ''/t/.git/config'', targetPath = str ''.git/config''\<rparr> = Inr []"
proof -
  have "startsWith (str ''.git/config'') (str ''.git/'')" by code_simp
  then show ?thesis
    using skip_rule [of hostC9 "str ''/out''" Map.empty
        "\<lparr>sourcePath = str ''/t/.git/config'', targetPath = str ''.git/config''\<rparr>"]
    by simp
qed


section \<open>Template selection\<close>

text \<open>
  C6. Whatever the tree and whatever the user picks, a node the selector returns owns no
  configuration file or has no children.
\<close>

theorem selection_is_final:
  "selectTemplateDir node pathStack picks = Returned selected \<Longrightarrow>
     \<not> hasConfig selected \<or> length (children selected) = 0"
proof (induction picks arbitrary: node pathStack)
  case Nil
  then show ?case
    by (subst (asm) selectTemplateDir.simps) (auto split: if_splits)
next
  case (Cons p picks)
  from Cons.prems show ?case
    by (subst (asm) selectTemplateDir.simps)
       (auto split: if_splits pick.splits option.splits dest: Cons.IH)
qed

text \<open>On every tree some sequence of picks makes the selector return.\<close>

lemma selection_reachable:
  "\<exists>picks selected. selectTemplateDir node pathStack picks = Returned selected"
proof (induction node arbitrary: pathStack)
  case (DirectoryNode nm pth kids cfg)
  show ?case
  proof (cases "cfg \<and> kids \<noteq> []")
    case False
    then have "selectTemplateDir (DirectoryNode nm pth kids cfg) pathStack [] = Returned (DirectoryNode nm pth kids cfg)"
      by (subst selectTemplateDir.simps) auto
    then show ?thesis by blast
  next
    case True
    then obtain k c rest where kids: "kids = (k, c) # rest" by (cases kids) auto
    from DirectoryNode.IH [of "(k, c)" c "pathStack @ [k]"] kids
    obtain picks selected where "selectTemplateDir c (pathStack @ [k]) picks = Returned selected"
      by auto
    with True kids
    have "selectTemplateDir (DirectoryNode nm pth kids cfg) pathStack (Picked k # picks) = Returned selected"
      by (subst selectTemplateDir.simps) (simp add: mapGet_def)
    then show ?thesis by blast
  qed
qed

lemma sel_demo: "selectTemplateDir treeC6 [] [Picked (str ''cli''), Picked (str ''full'')] = Returned (DirectoryNode (str ''full'') (str ''/t/cli/full'') [] True)"
  by code_simp

theorem selection_is_final_witness:
  "selectTemplateDir treeC6 [] [Picked (str ''cli''), Picked (str ''full'')]
     = Returned (DirectoryNode (str ''full'') (str ''/t/cli/full'') [] True)
   \<and> length (children (DirectoryNode (str ''full'') (str ''/t/cli/full'') [] True)) = 0"
  using selection_is_final [OF sel_demo] sel_demo by simp


section \<open>Insertion-ordered maps\<close>

lemma map_fst_mapSet:
  "map fst (mapSet k v m) = (if k \<in> fst ` set m then map fst m else map fst m @ [k])"
  by (induction m) force+

lemma map_of_mapSet: "map_of (mapSet k v m) = (map_of m)(k \<mapsto> v)"
  by (induction m) auto


section \<open>Merged prompts\<close>

lemma set_keepFirst [simp]: "set (keepFirst xs) = set xs"
  by (induction xs) auto

lemma distinct_keepFirst [simp]: "distinct (keepFirst xs)"
  by (induction xs) (auto simp: distinct_removeAll)

lemma keepFirst_snoc:
  "keepFirst (xs @ [x]) = (if x \<in> set xs then keepFirst xs else keepFirst xs @ [x])"
  by (induction xs) auto

lemma mergePrompts_fold_gen:
  "fold (\<lambda>config promptMap.
           (case prompts config of
              None \<Rightarrow> promptMap
            | Some ps \<Rightarrow> fold (\<lambda>prompt. mapSet (PromptConfig.name prompt) prompt) ps promptMap))
     cfgs m
   = fold (\<lambda>prompt. mapSet (PromptConfig.name prompt) prompt) (cascadePrompts cfgs) m"
  by (induction cfgs arbitrary: m) (auto simp: cascadePrompts_def split: option.splits)

lemma mergePrompts_fold:
  "mergePrompts cfgs = fold (\<lambda>prompt. mapSet (PromptConfig.name prompt) prompt) (cascadePrompts cfgs) []"
  unfolding mergePrompts_def by (rule mergePrompts_fold_gen)

lemma fold_mapSet_keys:
  "map fst (fold (\<lambda>p. mapSet (f p) p) ps []) = keepFirst (map f ps)"
proof (induction ps rule: rev_induct)
  case Nil
  then show ?case by simp
next
  case (snoc p ps)
  have "fst ` set (fold (\<lambda>p. mapSet (f p) p) ps []) = set (map f ps)"
    using snoc by (metis set_keepFirst set_map)
  with snoc show ?case
    by (simp add: map_fst_mapSet keepFirst_snoc)
qed

lemma fold_mapSet_values:
  "map_of (fold (\<lambda>p. mapSet (f p) p) ps []) k
   = (if k \<in> f ` set ps then Some (last (filter (\<lambda>q. f q = k) ps)) else None)"
proof (induction ps rule: rev_induct)
  case Nil
  then show ?case by simp
next
  case (snoc p ps)
  then show ?case by (auto simp: map_of_mapSet)
qed

lemma fold_mapSet_entries:
  "(k, v) \<in> set (fold (\<lambda>p. mapSet (f p) p) ps []) \<Longrightarrow>
     map_of (fold (\<lambda>p. mapSet (f p) p) ps []) k = Some v"
proof -
  have "distinct (map fst (fold (\<lambda>p. mapSet (f p) p) ps []))"
    by (simp add: fold_mapSet_keys)
  then show "(k, v) \<in> set (fold (\<lambda>p. mapSet (f p) p) ps []) \<Longrightarrow> ?thesis"
    by simp
qed

lemma fold_mapSet_key_of_value:
  "(k, v) \<in> set (fold (\<lambda>p. mapSet (f p) p) ps []) \<Longrightarrow> k = f v"
proof -
  assume a: "(k, v) \<in> set (fold (\<lambda>p. mapSet (f p) p) ps [])"
  then have m: "map_of (fold (\<lambda>p. mapSet (f p) p) ps []) k = Some v"
    by (rule fold_mapSet_entries)
  then have "k \<in> f ` set ps" and v: "v = last (filter (\<lambda>q. f q = k) ps)"
    by (auto simp: fold_mapSet_values split: if_splits)
  then have "filter (\<lambda>q. f q = k) ps \<noteq> []"
    by (auto simp: filter_empty_conv)
  then have "last (filter (\<lambda>q. f q = k) ps) \<in> set (filter (\<lambda>q. f q = k) ps)"
    by (rule last_in_set)
  with v show "k = f v" by simp
qed

text \<open>
  C3. The names of the merged prompts are the distinct prompt names of the cascade in the
  order of their first occurrence, and each merged prompt is the last prompt of its name
  in cascade order.
\<close>

theorem merged_prompts:
  "map PromptConfig.name (fst (mergeConfigs cfgs selectedConfig))
     = keepFirst (map PromptConfig.name (cascadePrompts cfgs))
   \<and> distinct (map PromptConfig.name (fst (mergeConfigs cfgs selectedConfig)))
   \<and> set (map PromptConfig.name (fst (mergeConfigs cfgs selectedConfig)))
       = set (map PromptConfig.name (cascadePrompts cfgs))
   \<and> (\<forall>p \<in> set (fst (mergeConfigs cfgs selectedConfig)).
         p = last (filter (\<lambda>q. PromptConfig.name q = PromptConfig.name p) (cascadePrompts cfgs)))"
proof -
  let ?f = "PromptConfig.name :: PromptConfig \<Rightarrow> jsstring"
  let ?m = "fold (\<lambda>p. mapSet (?f p) p) (cascadePrompts cfgs) []"
  have merged: "fst (mergeConfigs cfgs selectedConfig) = map snd ?m"
    by (simp add: mergeConfigs_def mergePrompts_fold)
  have keyval: "map ?f (map snd ?m) = map fst ?m"
    by (auto dest: fold_mapSet_key_of_value)
  have names: "map ?f (map snd ?m) = keepFirst (map ?f (cascadePrompts cfgs))"
    unfolding keyval by (rule fold_mapSet_keys)
  have last: "p = last (filter (\<lambda>q. ?f q = ?f p) (cascadePrompts cfgs))"
    if "p \<in> set (map snd ?m)" for p
  proof -
    from that obtain k where kp: "(k, p) \<in> set ?m" by auto
    then have "k = ?f p" by (rule fold_mapSet_key_of_value)
    with kp have "map_of ?m (?f p) = Some p" by (auto dest: fold_mapSet_entries)
    then show ?thesis by (auto simp: fold_mapSet_values split: if_splits)
  qed
  show ?thesis
    unfolding merged using names last by (simp del: map_map)
qed

lemma mergedC3:
  "fst (mergeConfigs cascadeC3 None)
   = [promptC3 ''name'' SelectPrompt ''leaf name'',
      promptC3 ''license'' ConfirmPrompt ''shared license'',
      promptC3 ''author'' TextPrompt ''leaf author'']"
  by code_simp

lemma namesC3:
  "map PromptConfig.name (fst (mergeConfigs cascadeC3 None))
     = [str ''name'', str ''license'', str ''author'']"
  by code_simp

theorem merged_prompts_witness:
  "map PromptConfig.name (fst (mergeConfigs cascadeC3 None))
     = [str ''name'', str ''license'', str ''author'']
   \<and> fst (mergeConfigs cascadeC3 None)
     = [promptC3 ''name'' SelectPrompt ''leaf name'',
        promptC3 ''license'' ConfirmPrompt ''shared license'',
        promptC3 ''author'' TextPrompt ''leaf author'']"
  using merged_prompts [of cascadeC3 None] namesC3 mergedC3 by blast


section \<open>Configuration cascade\<close>

text \<open>
  C2. The template root is put in front of the chain without entering the visited set.
  When the selected directory \<^verbatim>\<open>/t/web\<close> names the root \<^verbatim>\<open>/t\<close> as a copy-from directory,
  the root is loaded and recorded a second time.
\<close>

theorem root_collected_twice:
  "collectAllConfigs hostC2 (DirectoryNode (str ''web'') (str ''/t/web'') [] True) (str ''/t'')
   = Some (Inr \<lparr>configs = [rootConfigC2, webConfigC2, rootConfigC2],
                paths = [str ''/t'', str ''/t/web'', str ''/t''],
                selectedDirConfig = Some webConfigC2\<rparr>)"
  by code_simp

text \<open>The second copy of the root comes last, so its prompt replaces that of the selected directory.\<close>

lemma root_prompt_wins:
  "fst (mergeConfigs [rootConfigC2, webConfigC2, rootConfigC2] (Some webConfigC2))
   = [\<lparr>PromptConfig.name = str ''name'', type = TextPrompt,
                       message = str ''Project name'', initial = Some (str ''app''),
                       options = None\<rparr>]"
  by code_simp


text \<open>
  Apart from the root, the visited set does what C2 says: when no copy-from entry of the
  selected configuration resolves to the template root, no path is recorded twice.
\<close>

lemma chainInvariant_step:
  "chainInvariant rootPath pathChain visited \<Longrightarrow> current \<noteq> rootPath \<Longrightarrow> current \<notin> set visited
     \<Longrightarrow> chainInvariant rootPath (current # pathChain) (setAdd current visited)"
  by (auto simp: chainInvariant_def setAdd_def)

lemma pathChain_loop_invariant:
  assumes "pathChain_loop h rootPath current pathChain visited = Some result"
  shows "chainInvariant rootPath pathChain visited \<longrightarrow>
     chainInvariant rootPath (fst result) (snd result)"
  using assms
proof (rule pathChain_loop.raw_induct
    [where P = "\<lambda>h rootPath current pathChain visited result.
        chainInvariant rootPath pathChain visited \<longrightarrow>
        chainInvariant rootPath (fst result) (snd result)", rotated])
  fix loop and h :: Host and rootPath current :: jsstring and pathChain visited :: "jsstring list"
    and result :: "jsstring list \<times> jsstring list"
  assume IH: "\<And>h rootPath current pathChain visited result.
      loop h rootPath current pathChain visited = Some result \<Longrightarrow>
      chainInvariant rootPath pathChain visited \<longrightarrow>
      chainInvariant rootPath (fst result) (snd result)"
    and body: "(if current \<noteq> [] \<and> current \<noteq> rootPath \<and> current \<notin> set visited
      then loop h rootPath (resolve (cwd h) [current, str ''..''])
            (current # pathChain) (setAdd current visited)
      else Some (pathChain, visited)) = Some result"
  show "chainInvariant rootPath pathChain visited \<longrightarrow>
          chainInvariant rootPath (fst result) (snd result)"
  proof (cases "current \<noteq> [] \<and> current \<noteq> rootPath \<and> current \<notin> set visited")
    case True
    with body have "loop h rootPath (resolve (cwd h) [current, str ''..''])
            (current # pathChain) (setAdd current visited) = Some result"
      by simp
    from IH [OF this] True show ?thesis
      using chainInvariant_step by blast
  next
    case False
    with body have "result = (pathChain, visited)" by simp
    then show ?thesis by simp
  qed
qed

lemma subseq_distinct: "subseq xs ys \<Longrightarrow> distinct ys \<Longrightarrow> distinct xs"
  by (induction rule: list_emb.induct) (auto dest: list_emb_set)

lemma loadChain_paths:
  "loadChain h selectedPath dirs acc = Inr acc' \<Longrightarrow>
     \<exists>added. paths acc' = paths acc @ added \<and> subseq added dirs"
proof (induction dirs arbitrary: acc)
  case Nil
  then show ?case by simp
next
  case (Cons dirPath rest)
  show ?case
  proof (cases "existsSync h (join [dirPath, str ''creator.json''])")
    case False
    with Cons.prems have "loadChain h selectedPath rest acc = Inr acc'" by simp
    from Cons.IH [OF this] show ?thesis by auto
  next
    case True
    with Cons.prems obtain config where
      "loadChain h selectedPath rest
         \<lparr>configs = configs acc @ [config], paths = paths acc @ [dirPath],
          selectedDirConfig =
            (if dirPath = selectedPath then Some config else selectedDirConfig acc)\<rparr> = Inr acc'"
      by (auto simp: Let_def split: sum.splits)
    from Cons.IH [OF this] obtain added where
      "paths acc' = paths acc @ dirPath # added" "subseq added rest"
      by auto
    then have "paths acc' = paths acc @ (dirPath # added) \<and> subseq (dirPath # added) (dirPath # rest)"
      by simp
    then show ?thesis by blast
  qed
qed

lemma loadCopyFroms_step:
  "loadCopyFroms h selectedPath (copyPath # rest) (acc, visited, processed) =
     (if resolve (cwd h) [selectedPath, copyPath] \<notin> set visited
         \<and> resolve (cwd h) [selectedPath, copyPath] \<notin> set processed
         \<and> existsSync h (resolve (cwd h) [selectedPath, copyPath])
      then
        (if existsSync h (join [resolve (cwd h) [selectedPath, copyPath], str ''creator.json''])
         then
           (case loadConfig h (join [resolve (cwd h) [selectedPath, copyPath], str ''creator.json'']) of
              Inl e \<Rightarrow> Inl e
            | Inr config \<Rightarrow>
                loadCopyFroms h selectedPath rest
                  (acc\<lparr>configs := configs acc @ [config],
                       paths := paths acc @ [resolve (cwd h) [selectedPath, copyPath]]\<rparr>,
                   setAdd (resolve (cwd h) [selectedPath, copyPath]) visited,
                   setAdd (resolve (cwd h) [selectedPath, copyPath]) processed))
         else loadCopyFroms h selectedPath rest
                (acc, setAdd (resolve (cwd h) [selectedPath, copyPath]) visited,
                 setAdd (resolve (cwd h) [selectedPath, copyPath]) processed))
      else loadCopyFroms h selectedPath rest (acc, visited, processed))"
  by (simp add: Let_def)

lemma loadCopyFroms_invariant:
  "loadCopyFroms h selectedPath copyPaths (acc, visited, processed) = Inr (acc', visited', processed')
   \<Longrightarrow> distinct (paths acc) \<Longrightarrow> set (paths acc) \<subseteq> insert rootPath (set visited)
   \<Longrightarrow> rootPath \<notin> (\<lambda>copyPath. resolve (cwd h) [selectedPath, copyPath]) ` set copyPaths
   \<Longrightarrow> distinct (paths acc') \<and> set (paths acc') \<subseteq> insert rootPath (set visited')
       \<and> selectedDirConfig acc' = selectedDirConfig acc"
proof (induction copyPaths arbitrary: acc visited processed)
  case Nil
  then show ?case by simp
next
  case (Cons copyPath rest)
  let ?r = "resolve (cwd h) [selectedPath, copyPath]"
  note run = Cons.prems(1) [unfolded loadCopyFroms_step]
  from Cons.prems(4) have root: "?r \<noteq> rootPath"
    and rest: "rootPath \<notin> (\<lambda>copyPath. resolve (cwd h) [selectedPath, copyPath]) ` set rest"
    by auto
  show ?case
  proof (cases "?r \<notin> set visited \<and> ?r \<notin> set processed \<and> existsSync h ?r")
    case False
    with run
    have "loadCopyFroms h selectedPath rest (acc, visited, processed) = Inr (acc', visited', processed')"
      by simp
    from Cons.IH [OF this Cons.prems(2,3) rest] show ?thesis .
  next
    case True
    show ?thesis
    proof (cases "existsSync h (join [?r, str ''creator.json''])")
      case False
      with True run
      have "loadCopyFroms h selectedPath rest (acc, setAdd ?r visited, setAdd ?r processed)
              = Inr (acc', visited', processed')"
        by simp
      moreover have "set (paths acc) \<subseteq> insert rootPath (set (setAdd ?r visited))"
        using Cons.prems(3) by (auto simp: setAdd_def)
      ultimately show ?thesis
        using Cons.IH [of acc "setAdd ?r visited" "setAdd ?r processed"] Cons.prems(2) rest
        by simp
    next
      case cfg: True
      from True cfg run
      have run': "(case loadConfig h (join [?r, str ''creator.json'']) of
              Inl e \<Rightarrow> Inl e
            | Inr config \<Rightarrow>
                loadCopyFroms h selectedPath rest
                  (acc\<lparr>configs := configs acc @ [config], paths := paths acc @ [?r]\<rparr>,
                   setAdd ?r visited, setAdd ?r processed)) = Inr (acc', visited', processed')"
        by simp
      then obtain config where
        step: "loadCopyFroms h selectedPath rest
                 (acc\<lparr>configs := configs acc @ [config], paths := paths acc @ [?r]\<rparr>,
                  setAdd ?r visited, setAdd ?r processed)
               = Inr (acc', visited', processed')"
        by (cases "loadConfig h (join [?r, str ''creator.json''])") simp_all
      have "?r \<notin> set (paths acc)"
        using True root Cons.prems(3) by auto
      then have d: "distinct (paths (acc\<lparr>configs := configs acc @ [config], paths := paths acc @ [?r]\<rparr>))"
        using Cons.prems(2) by simp
      have s: "set (paths (acc\<lparr>configs := configs acc @ [config], paths := paths acc @ [?r]\<rparr>))
                 \<subseteq> insert rootPath (set (setAdd ?r visited))"
        using Cons.prems(3) by (auto simp: setAdd_def)
      from Cons.IH [OF step d s rest] show ?thesis by simp
    qed
  qed
qed


lemma loadCopyFroms_selected:
  "loadCopyFroms h selectedPath copyPaths (acc, visited, processed) = Inr (acc', visited', processed')
   \<Longrightarrow> selectedDirConfig acc' = selectedDirConfig acc"
proof (induction copyPaths arbitrary: acc visited processed)
  case Nil
  then show ?case by simp
next
  case (Cons copyPath rest)
  note run = Cons.prems [unfolded loadCopyFroms_step]
  show ?case
  proof (cases "loadConfig h (join [resolve (cwd h) [selectedPath, copyPath], str ''creator.json''])")
    case (Inl e)
    with run Cons.IH show ?thesis by (simp split: if_splits)
  next
    case (Inr config)
    with run show ?thesis
      by (auto split: if_splits dest: Cons.IH)
  qed
qed

lemma cascade_paths_distinct:
  assumes run: "collectAllConfigs h selected rootPath = Some (Inr collected)"
    and noRoot: "\<forall>copyPaths. copyFromOf (selectedDirConfig collected) = Some copyPaths \<longrightarrow>
           rootPath \<notin> (\<lambda>copyPath. resolve (cwd h) [path selected, copyPath]) ` set copyPaths"
  shows "distinct (paths collected)"
proof -
  obtain chain visited where
    loop: "pathChain_loop h rootPath (path selected) [] [] = Some (chain, visited)"
    using run by (cases "pathChain_loop h rootPath (path selected) [] []")
      (auto simp: collectAllConfigs_def)
  obtain acc where
    chainLoad: "loadChain h (path selected) (rootPath # chain)
           \<lparr>configs = [], paths = [], selectedDirConfig = None\<rparr> = Inr acc"
    using run loop
    by (cases "loadChain h (path selected) (rootPath # chain)
           \<lparr>configs = [], paths = [], selectedDirConfig = None\<rparr>")
       (simp_all add: collectAllConfigs_def)
  have rest: "(case copyFromOf (selectedDirConfig acc) of
                  None \<Rightarrow> Inr acc
                | Some copyPaths \<Rightarrow>
                    (case loadCopyFroms h (path selected) copyPaths (acc, visited, []) of
                       Inl e \<Rightarrow> Inl e
                     | Inr (acc', visited', processed') \<Rightarrow> Inr acc')) = Inr collected"
    using run loop chainLoad by (simp add: collectAllConfigs_def)
  have "chainInvariant rootPath [] []"
    by (simp add: chainInvariant_def)
  with pathChain_loop_invariant [OF loop]
  have inv: "set chain = set visited" "distinct chain" "rootPath \<notin> set chain"
    by (auto simp: chainInvariant_def)
  from loadChain_paths [OF chainLoad] have sub: "subseq (paths acc) (rootPath # chain)"
    by simp
  have d: "distinct (paths acc)"
    using sub inv by (auto intro: subseq_distinct)
  have s: "set (paths acc) \<subseteq> insert rootPath (set visited)"
    using sub inv by (auto elim: list_emb_set)
  show ?thesis
  proof (cases "copyFromOf (selectedDirConfig acc)")
    case None
    with rest d show ?thesis by simp
  next
    case (Some copyPaths)
    with rest obtain visited' processed' where
      l: "loadCopyFroms h (path selected) copyPaths (acc, visited, [])
            = Inr (collected, visited', processed')"
      by (cases "loadCopyFroms h (path selected) copyPaths (acc, visited, [])") auto
    have sel: "selectedDirConfig collected = selectedDirConfig acc"
      using l by (rule loadCopyFroms_selected)
    with noRoot Some
    have "rootPath \<notin> (\<lambda>copyPath. resolve (cwd h) [path selected, copyPath]) ` set copyPaths"
      by simp
    from loadCopyFroms_invariant [OF l d s this] show ?thesis by simp
  qed
qed


section \<open>The resolved file map\<close>

lemma map_of_mapDelete:
  "map_of (mapDelete k m) k' = (if k' = k then None else map_of m k')"
  by (induction m) (auto simp: mapDelete_def)

lemma fold_mapDelete:
  "map_of (fold mapDelete ks m) k = (if k \<in> set ks then None else map_of m k)"
  by (induction ks arbitrary: m) (auto simp: map_of_mapDelete)

lemma excludeScan_get:
  "mapGet (excludeScan h configDir pattern m) k
   = (if k \<in> set (scan h configDir pattern) then None else mapGet m k)"
  by (simp add: excludeScan_def mapGet_def fold_mapDelete)

lemma fold_excludeScan_get:
  "mapGet (fold (excludeScan h configDir) patterns m) k
   = (if \<exists>pattern \<in> set patterns. k \<in> set (scan h configDir pattern) then None else mapGet m k)"
  by (induction patterns arbitrary: m) (auto simp: excludeScan_get)

lemma excludePhase_get:
  "exclude rules = Some patterns \<Longrightarrow>
     mapGet (excludePhase h configDir (Some rules) m) k
     = (if \<exists>pattern \<in> set patterns. k \<in> set (scan h configDir pattern) then None else mapGet m k)"
  by (cases "patterns = []") (simp_all add: excludePhase_def fold_excludeScan_get)

lemma fold_mapSet_get:
  "map_of (fold (\<lambda>e. mapSet (fst e) (snd e)) es m) k
   = (case map_of (rev es) k of Some v \<Rightarrow> Some v | None \<Rightarrow> map_of m k)"
  by (induction es arbitrary: m) (auto simp: map_of_mapSet split: option.splits)

lemma map_of_rev_last:
  "k \<in> fst ` set es \<Longrightarrow> map_of (rev es) k = Some (snd (last (filter (\<lambda>e. fst e = k) es)))"
proof (induction es rule: rev_induct)
  case Nil
  then show ?case by simp
next
  case (snoc e es)
  then show ?case by (cases "fst e = k") auto
qed

lemma copyFromScan_fold:
  "copyFromScan h templateRoot configDir copyPath m
   = fold (\<lambda>e. mapSet (fst e) (snd e)) (copyFromEntries h templateRoot configDir copyPath) m"
  by (simp add: copyFromScan_def copyFromEntries_def Let_def fold_map comp_def)

lemma fold_copyFromScan:
  "fold (copyFromScan h templateRoot configDir) copyPaths m
   = fold (\<lambda>e. mapSet (fst e) (snd e)) (allCopyFromEntries h templateRoot configDir copyPaths) m"
  by (induction copyPaths arbitrary: m) (simp_all add: allCopyFromEntries_def copyFromScan_fold)

lemma copyFromPhase_fold:
  "copyFrom rules = Some copyPaths \<Longrightarrow>
     copyFromPhase h templateRoot configDir (Some rules) m
     = fold (\<lambda>e. mapSet (fst e) (snd e)) (allCopyFromEntries h templateRoot configDir copyPaths) m"
  by (cases "copyPaths = []") (simp_all add: copyFromPhase_def fold_copyFromScan, simp add: allCopyFromEntries_def)

lemma copyFrom_key_listed:
  assumes "copyPath \<in> set copyPaths"
    and "existsSync h (resolve (cwd h) [join [configDir, copyPath]])"
    and "isDirectory h (resolve (cwd h) [join [configDir, copyPath]])"
    and "relPath \<in> set (scan h (resolve (cwd h) [join [configDir, copyPath]]) (str ''**/*''))"
  shows "(relFromRoot h templateRoot (join [resolve (cwd h) [join [configDir, copyPath]], relPath]),
          join [resolve (cwd h) [join [configDir, copyPath]], relPath])
         \<in> set (allCopyFromEntries h templateRoot configDir copyPaths)"
  using assms by (auto simp: allCopyFromEntries_def copyFromEntries_def Let_def)

lemma resolved_copyFrom_key:
  assumes "copyFrom rules = Some copyPaths"
    and "k \<in> fst ` set (allCopyFromEntries h templateRoot configDir copyPaths)"
  shows "mapGet (resolvedFileMap h templateRoot configDir (Some rules)) k
         = Some (snd (last (filter (\<lambda>e. fst e = k)
                              (allCopyFromEntries h templateRoot configDir copyPaths))))"
  using assms
  by (simp add: resolvedFileMap_def copyFromPhase_fold mapGet_def fold_mapSet_get map_of_rev_last)




text \<open>
  A copy-from directory outside the template root keeps its absolute path as the key: with
  the selected directory \<^verbatim>\<open>/r/t\<close> itself as the template root, the file of \<^verbatim>\<open>../shared\<close> is
  stored under \<^verbatim>\<open>/r/shared/x.txt\<close>.
\<close>

lemma copy_from_outside_root:
  "resolvedFileMap hostFiles (str ''/r/t'') (str ''/r/t'') (Some rulesShared)
   = [(str ''a.txt'', str ''/r/t/a.txt''), (str ''shared/x.txt'', str ''/r/t/shared/x.txt''),
      (str ''/r/shared/x.txt'', str ''/r/shared/x.txt'')]"
  by code_simp

























text \<open>
  C5. Whatever exclude patterns replace those of the rules, the entry of a copy-from file
  is the same, and it is present.
\<close>

theorem copy_from_survives_exclude:
  assumes "copyFrom rules = Some copyPaths"
    and "copyPath \<in> set copyPaths"
    and "existsSync h (resolve (cwd h) [join [configDir, copyPath]])"
    and "isDirectory h (resolve (cwd h) [join [configDir, copyPath]])"
    and "relPath \<in> set (scan h (resolve (cwd h) [join [configDir, copyPath]]) (str ''**/*''))"
    and "key = relFromRoot h templateRoot
                 (join [resolve (cwd h) [join [configDir, copyPath]], relPath])"
  shows "mapGet (resolvedFileMap h templateRoot configDir (Some (rules\<lparr>exclude := patterns\<rparr>))) key
           = mapGet (resolvedFileMap h templateRoot configDir (Some rules)) key
         \<and> mapGet (resolvedFileMap h templateRoot configDir (Some rules)) key \<noteq> None"
proof -
  let ?es = "allCopyFromEntries h templateRoot configDir copyPaths"
  have "(key, join [resolve (cwd h) [join [configDir, copyPath]], relPath]) \<in> set ?es"
    unfolding assms(6) using assms(2-5) by (rule copyFrom_key_listed)
  then have k: "key \<in> fst ` set ?es" by (metis fst_conv image_eqI)
  have "copyFrom (rules\<lparr>exclude := patterns\<rparr>) = Some copyPaths"
    using assms(1) by simp
  from resolved_copyFrom_key [OF this k] resolved_copyFrom_key [OF assms(1) k]
  show ?thesis by simp
qed

lemma excludedShared:
  "mapGet (resolvedFileMap hostFiles (str ''/r'') (str ''/r/t'')
            (Some (rulesShared\<lparr>exclude := Some [str ''shared/**'']\<rparr>))) (str ''shared/x.txt'')
   = Some (str ''/r/shared/x.txt'')"
  "mapGet (resolvedFileMap hostFiles (str ''/r'') (str ''/r/t'') (Some rulesShared))
     (str ''shared/x.txt'') = Some (str ''/r/shared/x.txt'')"
  by code_simp+

theorem copy_from_survives_exclude_witness:
  "mapGet (resolvedFileMap hostFiles (str ''/r'') (str ''/r/t'')
            (Some (rulesShared\<lparr>exclude := Some [str ''shared/**'']\<rparr>))) (str ''shared/x.txt'')
   = mapGet (resolvedFileMap hostFiles (str ''/r'') (str ''/r/t'') (Some rulesShared))
       (str ''shared/x.txt'')
   \<and> mapGet (resolvedFileMap hostFiles (str ''/r'') (str ''/r/t'')
            (Some (rulesShared\<lparr>exclude := Some [str ''shared/**'']\<rparr>))) (str ''shared/x.txt'')
     = Some (str ''/r/shared/x.txt'')"
  using copy_from_survives_exclude
    [of rulesShared "[str ''../shared'']" "str ''../shared''" hostFiles "str ''/r/t''"
        "str ''x.txt''" "str ''shared/x.txt''" "str ''/r''" "Some [str ''shared/**'']"]
  unfolding excludedShared by simp

text \<open>
  C4, as stated, fails: \<^verbatim>\<open>a.txt\<close> is matched by the second include pattern and by the
  exclude pattern; the include phase has it, the final map does not.
\<close>

theorem reinclude_counterexample:
  "include rulesReinclude = Some [str ''**/*'', str ''a.txt'']
   \<and> exclude rulesReinclude = Some [str ''a.txt'']
   \<and> str ''a.txt'' \<in> set (scan hostFiles (str ''/r/t'') (str ''a.txt''))
   \<and> mapGet (includePhase hostFiles (str ''/r/t'') (Some rulesReinclude)) (str ''a.txt'')
       = Some (str ''/r/t/a.txt'')
   \<and> mapGet (resolvedFileMap hostFiles (str ''/r'') (str ''/r/t'') (Some rulesReinclude))
         (str ''a.txt'') = None"
  by code_simp

text \<open>
  C4, amended. A path matched by an exclude pattern is absent after the exclude phase,
  whatever the include patterns, and is in the final map exactly when a copy-from file is
  stored under it.
\<close>

theorem excluded_paths_stay_excluded:
  assumes "exclude rules = Some patterns"
    and "pattern \<in> set patterns"
    and "relPath \<in> set (scan h configDir pattern)"
  shows "mapGet (excludePhase h configDir (Some rules) (includePhase h configDir (Some rules)))
           relPath = None
         \<and> (mapGet (resolvedFileMap h templateRoot configDir (Some rules)) relPath \<noteq> None
              \<longleftrightarrow> (\<exists>copyPaths. copyFrom rules = Some copyPaths
                     \<and> relPath \<in> fst ` set (allCopyFromEntries h templateRoot configDir copyPaths)))"
proof -
  let ?m = "excludePhase h configDir (Some rules) (includePhase h configDir (Some rules))"
  have gone: "mapGet ?m relPath = None"
    using assms by (auto simp: excludePhase_get)
  show ?thesis
  proof (cases "copyFrom rules")
    case None
    then have "resolvedFileMap h templateRoot configDir (Some rules) = ?m"
      by (simp add: resolvedFileMap_def copyFromPhase_def)
    with gone None show ?thesis by simp
  next
    case (Some copyPaths)
    let ?es = "allCopyFromEntries h templateRoot configDir copyPaths"
    have "mapGet (resolvedFileMap h templateRoot configDir (Some rules)) relPath
          = (case map_of (rev ?es) relPath of Some v \<Rightarrow> Some v | None \<Rightarrow> mapGet ?m relPath)"
      using Some
      by (simp add: resolvedFileMap_def copyFromPhase_fold mapGet_def fold_mapSet_get
          cong: option.case_cong)
    moreover have "map_of (rev ?es) relPath \<noteq> None \<longleftrightarrow> relPath \<in> fst ` set ?es"
      by (simp add: map_of_eq_None_iff)
    ultimately show ?thesis
      using gone Some by (auto split: option.splits)
  qed
qed

lemma sharedC4:
  "exclude (rulesShared\<lparr>exclude := Some [str ''shared/**'']\<rparr>) = Some [str ''shared/**'']"
  "scan hostFiles (str ''/r/t'') (str ''shared/**'') = [str ''shared/x.txt'']"
  "mapGet (includePhase hostFiles (str ''/r/t'') (Some (rulesShared\<lparr>exclude := Some [str ''shared/**'']\<rparr>)))
     (str ''shared/x.txt'') = Some (str ''/r/t/shared/x.txt'')"
  by code_simp+

theorem excluded_paths_stay_excluded_witness:
  "mapGet (includePhase hostFiles (str ''/r/t'') (Some (rulesShared\<lparr>exclude := Some [str ''shared/**'']\<rparr>)))
     (str ''shared/x.txt'') = Some (str ''/r/t/shared/x.txt'')
   \<and> mapGet (excludePhase hostFiles (str ''/r/t'')
              (Some (rulesShared\<lparr>exclude := Some [str ''shared/**'']\<rparr>))
              (includePhase hostFiles (str ''/r/t'')
                 (Some (rulesShared\<lparr>exclude := Some [str ''shared/**'']\<rparr>))))
       (str ''shared/x.txt'') = None"
  using excluded_paths_stay_excluded
    [of "rulesShared\<lparr>exclude := Some [str ''shared/**'']\<rparr>" "[str ''shared/**'']"
        "str ''shared/**''" "str ''shared/x.txt''" hostFiles "str ''/r/t''" "str ''/r''"]
  by (simp add: sharedC4)


section \<open>The template subdirectory\<close>

text \<open>The tree the builder returns is rooted at the path it was given.\<close>

lemma path_addChildren: "path (addChildren kids node) = path node"
  by (simp add: addChildren_def)

lemma path_updateAt: "(\<And>node. path (f node) = path node) \<Longrightarrow> path (updateAt f route node) = path node"
  by (cases route) (auto split: option.splits)

lemma buildDirTree_loop_path:
  assumes "buildDirTree_loop h queue root = Some result"
  shows "\<forall>dirTree. result = Inr dirTree \<longrightarrow> path dirTree = path root"
  using assms
proof (rule buildDirTree_loop.raw_induct
    [where P = "\<lambda>h queue root result. \<forall>dirTree. result = Inr dirTree \<longrightarrow> path dirTree = path root",
     rotated])
  fix loop and h :: Host and queue :: "jsstring list list" and root :: DirectoryNode
    and result :: "error + DirectoryNode"
  assume IH: "\<And>h queue root result. loop h queue root = Some result \<Longrightarrow>
      \<forall>dirTree. result = Inr dirTree \<longrightarrow> path dirTree = path root"
    and body: "(case queue of
        [] \<Rightarrow> Some (Inr root)
      | route # rest \<Rightarrow>
          (case nodeAt root route of
             None \<Rightarrow> loop h rest root
           | Some node \<Rightarrow>
               (case readdir h (path node) of
                  None \<Rightarrow> Some (Inl (FsError (path node)))
                | Some entries \<Rightarrow>
                    loop h
                      (rest @ map (\<lambda>childNode. route @ [DirectoryNode.name childNode])
                                (childNodes h node entries))
                      (updateAt (addChildren (childNodes h node entries)) route root)))) = Some result"
  show "\<forall>dirTree. result = Inr dirTree \<longrightarrow> path dirTree = path root"
  proof (cases queue)
    case Nil
    with body show ?thesis by auto
  next
    case (Cons route rest)
    show ?thesis
    proof (cases "nodeAt root route")
      case None
      with body Cons have "loop h rest root = Some result" by simp
      from IH [OF this] show ?thesis .
    next
      case (Some node)
      show ?thesis
      proof (cases "readdir h (path node)")
        case None
        with body Cons Some show ?thesis by auto
      next
        case entries: (Some entries)
        with body Cons Some
        have "loop h (rest @ map (\<lambda>childNode. route @ [DirectoryNode.name childNode])
                                (childNodes h node entries))
                (updateAt (addChildren (childNodes h node entries)) route root) = Some result"
          by simp
        from IH [OF this] show ?thesis
          by (simp add: path_updateAt path_addChildren)
      qed
    qed
  qed
qed

lemma buildDirTree_path:
  "buildDirTree h rootPath = Some (Inr dirTree) \<Longrightarrow> path dirTree = rootPath"
  unfolding buildDirTree_def by (drule buildDirTree_loop_path) simp

text \<open>
  C10. When the template root exists and holds a directory named \<^verbatim>\<open>template\<close>, the run
  is the run on that subdirectory: tree building, selection, cascade collection and file
  resolution all receive \<^verbatim>\<open>templateRoot/template\<close>, and the tree is rooted there.
\<close>

theorem template_subdirectory_redirect:
  assumes "existsSync h templateRoot"
    and "existsSync h (join [templateRoot, str ''template''])"
    and "isDirectory h (join [templateRoot, str ''template''])"
  shows "effectiveTemplateRoot h templateRoot = join [templateRoot, str ''template'']
         \<and> main h templateRoot outputRoot picks answers
             = scaffold h (join [templateRoot, str ''template'']) outputRoot picks answers
         \<and> (\<forall>dirTree. buildDirTree h (effectiveTemplateRoot h templateRoot) = Some (Inr dirTree)
                \<longrightarrow> path dirTree = join [templateRoot, str ''template''])"
proof -
  have eff: "effectiveTemplateRoot h templateRoot = join [templateRoot, str ''template'']"
    using assms(2,3) by (simp add: effectiveTemplateRoot_def Let_def)
  moreover have "main h templateRoot outputRoot picks answers
             = scaffold h (join [templateRoot, str ''template'']) outputRoot picks answers"
    using assms(1) by (simp add: main_def eff)
  ultimately show ?thesis
    by (auto dest: buildDirTree_path)
qed

lemma runC10:
  "main hostC10 (str ''/r'') (str ''/out'') [Picked (str ''web'')] [Answered (VString (str ''demo''))]
   = Some (Returned
       \<lparr>selectedDir = DirectoryNode (str ''web'') (str ''/r/template/web'') [] True,
        cascade = \<lparr>configs = [rootConfigC10, webConfigC10],
                    paths = [str ''/r/template'', str ''/r/template/web''],
                    selectedDirConfig = Some webConfigC10\<rparr>,
        written = [MakeDirectory (str ''/out''), WriteText (str ''/out/a.txt'') (str ''demo''),
                   MakeDirectory (str ''/out/shared''),
                   WriteText (str ''/out/shared/x.txt'') (str ''demo'')],
        failure = None\<rparr>)"
  by code_simp

lemma existsC10:
  "existsSync hostC10 (str ''/r'')"
  "existsSync hostC10 (join [str ''/r'', str ''template''])"
  "isDirectory hostC10 (join [str ''/r'', str ''template''])"
  by code_simp+

lemma joinC10: "join [str ''/r'', str ''template''] = str ''/r/template''"
  by code_simp

theorem template_subdirectory_redirect_witness:
  "effectiveTemplateRoot hostC10 (str ''/r'') = str ''/r/template''
   \<and> scaffold hostC10 (str ''/r/template'') (str ''/out'') [Picked (str ''web'')]
         [Answered (VString (str ''demo''))]
     = Some (Returned
       \<lparr>selectedDir = DirectoryNode (str ''web'') (str ''/r/template/web'') [] True,
        cascade = \<lparr>configs = [rootConfigC10, webConfigC10],
                    paths = [str ''/r/template'', str ''/r/template/web''],
                    selectedDirConfig = Some webConfigC10\<rparr>,
        written = [MakeDirectory (str ''/out''), WriteText (str ''/out/a.txt'') (str ''demo''),
                   MakeDirectory (str ''/out/shared''),
                   WriteText (str ''/out/shared/x.txt'') (str ''demo'')],
        failure = None\<rparr>)"
  using template_subdirectory_redirect
    [OF existsC10, of "str ''/out''" "[Picked (str ''web'')]"
        "[Answered (VString (str ''demo''))]"] runC10
  unfolding joinC10 by metis


end
